theory Spec2Isabelle
  imports Main "HOL-Library.Word"
begin

unbundle bit_operations_syntax

text \<open>
  A shallow embedding of the build-and-serve pipeline of the compact-portfolio repository.
  The repository holds two variants of the server: \<^verbatim>\<open>server.js\<close>, written as top-level
  functions, and a second script written as the class \<^verbatim>\<open>AssetProcessor\<close>.  Functions of
  the first keep their names; functions of the class carry the prefix \<open>AP_\<close>.  Code that is
  textually the same in both is embedded once.

  JavaScript strings are embedded as \<^typ>\<open>string\<close>: the code units below 256.  Node
  library functions outside the repository (SHA-256, UTF-8 coding, Brotli, Gzip) are parameters,
  collected in the record \<open>platform\<close>.  The regular expressions are embedded as terms of a
  datatype, run by a backtracking matcher that follows the ECMAScript rules for the
  constructs the repository uses.
\<close>

section \<open>JavaScript strings\<close>

definition code :: "char \<Rightarrow> nat" where
  "code c = of_char c"

definition inRange :: "char \<Rightarrow> char \<Rightarrow> char \<Rightarrow> bool" where
  "inRange a b c = (code a \<le> code c \<and> code c \<le> code b)"

text \<open>\<^verbatim>\<open>\s\<close> and the characters \<^verbatim>\<open>trim\<close> strips: tab, LF, VT, FF, CR, space, NBSP.\<close>

definition isSpace :: "char \<Rightarrow> bool" where
  "isSpace c = (c \<in> set [CHR 0x09, CHR 0x0A, CHR 0x0B, CHR 0x0C, CHR 0x0D, CHR 0x20, CHR 0xA0])"

definition isDigit :: "char \<Rightarrow> bool" where
  "isDigit c = inRange CHR ''0'' CHR ''9'' c"

text \<open>\<^verbatim>\<open>\w\<close>\<close>

definition isWordChar :: "char \<Rightarrow> bool" where
  "isWordChar c = (inRange CHR ''a'' CHR ''z'' c \<or> inRange CHR ''A'' CHR ''Z'' c
                   \<or> inRange CHR ''0'' CHR ''9'' c \<or> c = CHR ''_'')"

definition isLineTerminator :: "char \<Rightarrow> bool" where
  "isLineTerminator c = (c = CHR 0x0A \<or> c = CHR 0x0D)"

definition toUpper :: "char \<Rightarrow> char" where
  "toUpper c =
     (if inRange CHR ''a'' CHR ''z'' c \<or> (inRange CHR 0xE0 CHR 0xFE c \<and> c \<noteq> CHR 0xF7)
      then char_of (code c - 32) else c)"

definition toLower :: "char \<Rightarrow> char" where
  "toLower c =
     (if inRange CHR ''A'' CHR ''Z'' c \<or> (inRange CHR 0xC0 CHR 0xDE c \<and> c \<noteq> CHR 0xD7)
      then char_of (code c + 32) else c)"

definition toLowerCase :: "string \<Rightarrow> string" where
  "toLowerCase s = map toLower s"

definition trim :: "string \<Rightarrow> string" where
  "trim s = rev (dropWhile isSpace (rev (dropWhile isSpace s)))"

definition endsWith :: "string \<Rightarrow> string \<Rightarrow> bool" where
  "endsWith s t = (length t \<le> length s \<and> drop (length s - length t) s = t)"

text \<open>\<^verbatim>\<open>s[i]\<close>: \<^verbatim>\<open>undefined\<close> out of range.\<close>

definition charAt :: "string \<Rightarrow> nat \<Rightarrow> char option" where
  "charAt s i = (if i < length s then Some (s ! i) else None)"

fun join :: "string \<Rightarrow> string list \<Rightarrow> string" where
  "join sep [] = []"
| "join sep [x] = x"
| "join sep (x # y # ys) = x @ sep @ join sep (y # ys)"

text \<open>\<^verbatim>\<open>Number.prototype.toString(radix)\<close> on a non-negative integer.\<close>

definition digitChar :: "nat \<Rightarrow> char" where
  "digitChar d = (''0123456789abcdefghijklmnopqrstuvwxyz'' ! d)"

function numberToString :: "nat \<Rightarrow> nat \<Rightarrow> string" where
  "numberToString radix n =
     (if radix < 2 \<or> n < radix then [digitChar n]
      else numberToString radix (n div radix) @ [digitChar (n mod radix)])"
  by pat_completeness auto
termination
proof (relation "measure (\<lambda>(radix, n). n)")
  fix radix n :: nat
  assume "\<not> (radix < 2 \<or> n < radix)"
  then have "1 < radix" and "0 < n" by simp_all
  then have "n div radix < n" by (rule div_less_dividend)
  then show "((radix, n div radix), (radix, n)) \<in> measure (\<lambda>(radix, n). n)" by simp
qed simp

declare numberToString.simps [simp del]

text \<open>
  \<^verbatim>\<open>parseInt\<close> on a string of decimal digits (the only strings the code passes: a
  \<^verbatim>\<open>\d+\<close> capture), as an exact natural number.  JavaScript agrees below \<open>2^53\<close>;
  from there on it rounds to a double, and the digits that \<^verbatim>\<open>toString(16)\<close> gives are
  left to the implementation, so the embedding of \<^verbatim>\<open>rgb(...)\<close> with a component of
  \<open>2^53\<close> or more is not that of the code.  No theorem below evaluates it there.
\<close>

definition parseInt :: "string \<Rightarrow> nat" where
  "parseInt s = foldl (\<lambda>n c. 10 * n + (code c - code CHR ''0'')) 0 s"

definition padStart :: "nat \<Rightarrow> char \<Rightarrow> string \<Rightarrow> string" where
  "padStart n c s = replicate (n - length s) c @ s"

text \<open>\<^verbatim>\<open>s.split(/\s+/)\<close>\<close>

function splitSpaces :: "string \<Rightarrow> string \<Rightarrow> string list" where
  "splitSpaces acc [] = [rev acc]"
| "splitSpaces acc (c # cs) =
     (if isSpace c then rev acc # splitSpaces [] (dropWhile isSpace cs)
      else splitSpaces (c # acc) cs)"
  by pat_completeness auto
termination
  by (relation "measure (\<lambda>(acc, s). length s)")
     (auto simp: less_Suc_eq_le length_dropWhile_le)

text \<open>
  \<^verbatim>\<open>String.prototype.replace\<close> with a string pattern: the first occurrence is replaced.
  \<open>splitFirst pat s\<close> gives the text before and after it.
\<close>

fun splitFirst :: "string \<Rightarrow> string \<Rightarrow> (string \<times> string) option" where
  "splitFirst pat [] = (if pat = [] then Some ([], []) else None)"
| "splitFirst pat (x # xs) =
     (if take (length pat) (x # xs) = pat then Some ([], drop (length pat) (x # xs))
      else map_option (\<lambda>(a, b). (x # a, b)) (splitFirst pat xs))"

text \<open>
  The replacement text of \<^verbatim>\<open>replace\<close> (GetSubstitution): \<^verbatim>\<open>$$\<close>, \<^verbatim>\<open>$&\<close>,
  \<^verbatim>\<open>$`\<close>, \<^verbatim>\<open>$'\<close> and \<^verbatim>\<open>$n\<close>, \<^verbatim>\<open>$nn\<close> for the capture groups \<open>1..ng\<close>;
  a \<^verbatim>\<open>$\<close> before anything else stands for itself.  \<open>caps\<close> gives the text of a group, or
  \<open>None\<close> when it did not take part.
\<close>

definition digitVal :: "char \<Rightarrow> nat" where
  "digitVal c = code c - code CHR ''0''"

fun substitute ::
  "nat \<Rightarrow> (nat \<Rightarrow> string option) \<Rightarrow> string \<Rightarrow> string \<Rightarrow> string \<Rightarrow> string \<Rightarrow> string" where
  "substitute ng caps matched preceding following [] = []"
| "substitute ng caps matched preceding following [c] = [c]"
| "substitute ng caps matched preceding following (c # d # r) =
     (if c \<noteq> CHR ''$'' then c # substitute ng caps matched preceding following (d # r)
      else if d = CHR ''$'' then CHR ''$'' # substitute ng caps matched preceding following r
      else if d = CHR ''&'' then matched @ substitute ng caps matched preceding following r
      else if d = CHR 0x60 then preceding @ substitute ng caps matched preceding following r
      else if d = CHR 0x27 then following @ substitute ng caps matched preceding following r
      else if isDigit d then
        (case r of
           e # r' \<Rightarrow>
             if isDigit e \<and> 1 \<le> 10 * digitVal d + digitVal e \<and> 10 * digitVal d + digitVal e \<le> ng
             then (case caps (10 * digitVal d + digitVal e) of None \<Rightarrow> [] | Some s \<Rightarrow> s)
                    @ substitute ng caps matched preceding following r'
             else if 1 \<le> digitVal d \<and> digitVal d \<le> ng
             then (case caps (digitVal d) of None \<Rightarrow> [] | Some s \<Rightarrow> s)
                    @ substitute ng caps matched preceding following (e # r')
             else c # substitute ng caps matched preceding following (d # e # r')
         | [] \<Rightarrow>
             if 1 \<le> digitVal d \<and> digitVal d \<le> ng
             then (case caps (digitVal d) of None \<Rightarrow> [] | Some s \<Rightarrow> s)
             else [c, d])
      else c # substitute ng caps matched preceding following (d # r))"

definition replaceFirst :: "string \<Rightarrow> string \<Rightarrow> string \<Rightarrow> string" where
  "replaceFirst pat rep s =
     (case splitFirst pat s of
        None \<Rightarrow> s
      | Some (preceding, following) \<Rightarrow>
          preceding @ substitute 0 (\<lambda>n. None) pat preceding following rep @ following)"

text \<open>A JavaScript \<^verbatim>\<open>Set\<close> of strings keeps insertion order and no duplicates.\<close>

definition setAdd :: "string \<Rightarrow> string list \<Rightarrow> string list" where
  "setAdd x xs = (if x \<in> set xs then xs else xs @ [x])"

section \<open>Regular expressions\<close>

text \<open>
  A character class item, a one-character pattern, and the patterns built from them.
  \<open>OneI\<close> is a literal character under the \<^verbatim>\<open>i\<close> flag; \<open>Dot\<close> is \<^verbatim>\<open>.\<close>;
  \<open>Star\<close> and \<open>LazyStar\<close> are \<^verbatim>\<open>r*\<close> and \<^verbatim>\<open>r*?\<close>; \<open>Group n\<close> is the \<open>n\<close>-th
  capture group and \<open>Backref n\<close> the reference \<^verbatim>\<open>\n\<close>; \<open>NotAhead\<close> is \<^verbatim>\<open>(?!r)\<close>;
  \<open>WordB\<close> is \<^verbatim>\<open>\b\<close>; \<open>Bos\<close> and \<open>Eos\<close> are \<^verbatim>\<open>^\<close> and \<^verbatim>\<open>$\<close> without the
  \<^verbatim>\<open>m\<close> flag, \<open>EolM\<close> is \<^verbatim>\<open>$\<close> with it.  No pattern of the repository has a capture
  group under a quantifier, so the reset of captures at each iteration is not embedded.
\<close>

datatype cls = CChar char | CRange char char | CSpace | CNotSpace | CDigit | CWord

fun inCls :: "char \<Rightarrow> cls \<Rightarrow> bool" where
  "inCls c (CChar d) = (c = d)"
| "inCls c (CRange a b) = inRange a b c"
| "inCls c CSpace = isSpace c"
| "inCls c CNotSpace = (\<not> isSpace c)"
| "inCls c CDigit = isDigit c"
| "inCls c CWord = isWordChar c"

datatype atom = One char | OneI char | In "cls list" | NotIn "cls list" | Dot

fun accepts :: "atom \<Rightarrow> char \<Rightarrow> bool" where
  "accepts (One d) c = (c = d)"
| "accepts (OneI d) c = (toUpper c = toUpper d)"
| "accepts (In cs) c = list_ex (inCls c) cs"
| "accepts (NotIn cs) c = (\<not> list_ex (inCls c) cs)"
| "accepts Dot c = (\<not> isLineTerminator c)"

datatype re =
    Eps
  | Chr atom
  | Seq re re
  | Alt re re
  | Star re
  | LazyStar re
  | Group nat re
  | Backref nat
  | NotAhead re
  | WordB
  | Bos
  | Eos
  | EolM

text \<open>
  The matcher runs a stack of pending work against the rest of the input.  It carries the
  position \<open>i\<close>, the character before it (for \<^verbatim>\<open>\b\<close>) and the captures so far.
  \<open>CloseG\<close> closes a capture group opened at a position; \<open>Guard j r\<close> continues with
  \<open>r\<close> unless the iteration of a star that started at \<open>j\<close> consumed nothing.  The result
  is the end position of the leftmost-first match, with its captures.
\<close>

datatype frame = R re | CloseG nat nat string | Guard nat re

type_synonym caps = "(nat \<times> string) list"

fun rsz :: "re \<Rightarrow> nat" where
  "rsz (Seq a b) = rsz a + rsz b + 1"
| "rsz (Alt a b) = rsz a + rsz b + 1"
| "rsz (Star r) = rsz r + 1"
| "rsz (LazyStar r) = rsz r + 1"
| "rsz (Group n r) = rsz r + 2"
| "rsz (NotAhead r) = rsz r + 1"
| "rsz _ = 1"

fun fw :: "nat \<Rightarrow> frame \<Rightarrow> nat" where
  "fw i (R r) = rsz r"
| "fw i (CloseG n j xs) = 1"
| "fw i (Guard j r) = (if i = j then 0 else rsz r + 1)"

function (sequential) m ::
  "frame list \<Rightarrow> nat \<Rightarrow> char option \<Rightarrow> string \<Rightarrow> caps \<Rightarrow> (nat \<times> caps) option" where
  "m [] i p xs caps = Some (i, caps)"
| "m (R Eps # k) i p xs caps = m k i p xs caps"
| "m (R (Chr t) # k) i p [] caps = None"
| "m (R (Chr t) # k) i p (x # xs) caps =
     (if accepts t x then m k (i + 1) (Some x) xs caps else None)"
| "m (R (Seq a b) # k) i p xs caps = m (R a # R b # k) i p xs caps"
| "m (R (Alt a b) # k) i p xs caps =
     (case m (R a # k) i p xs caps of Some res \<Rightarrow> Some res | None \<Rightarrow> m (R b # k) i p xs caps)"
| "m (R (Star r) # k) i p xs caps =
     (case m (R r # Guard i (Star r) # k) i p xs caps of
        Some res \<Rightarrow> Some res
      | None \<Rightarrow> m k i p xs caps)"
| "m (R (LazyStar r) # k) i p xs caps =
     (case m k i p xs caps of
        Some res \<Rightarrow> Some res
      | None \<Rightarrow> m (R r # Guard i (LazyStar r) # k) i p xs caps)"
| "m (Guard j r # k) i p xs caps = (if i = j then None else m (R r # k) i p xs caps)"
| "m (R (Group n r) # k) i p xs caps = m (R r # CloseG n i xs # k) i p xs caps"
| "m (CloseG n j ys # k) i p xs caps = m k i p xs ((n, take (i - j) ys) # caps)"
| "m (R (Backref n) # k) i p xs caps =
     (case map_of caps n of
        None \<Rightarrow> m k i p xs caps
      | Some [] \<Rightarrow> m k i p xs caps
      | Some (y # ys) \<Rightarrow>
          (if take (length (y # ys)) xs = y # ys
           then m k (i + length (y # ys)) (Some (last (y # ys))) (drop (length (y # ys)) xs) caps
           else None))"
| "m (R (NotAhead r) # k) i p xs caps =
     (case m [R r] i p xs caps of Some res \<Rightarrow> None | None \<Rightarrow> m k i p xs caps)"
| "m (R WordB # k) i p xs caps =
     (if (case p of None \<Rightarrow> False | Some c \<Rightarrow> isWordChar c)
         \<noteq> (case xs of [] \<Rightarrow> False | x # _ \<Rightarrow> isWordChar x)
      then m k i p xs caps else None)"
| "m (R Bos # k) i p xs caps = (if i = 0 then m k i p xs caps else None)"
| "m (R Eos # k) i p xs caps = (if xs = [] then m k i p xs caps else None)"
| "m (R EolM # k) i p xs caps =
     (if (case xs of [] \<Rightarrow> True | x # _ \<Rightarrow> isLineTerminator x)
      then m k i p xs caps else None)"
  by pat_completeness auto
termination
  by (relation "measures [\<lambda>(k, i, p, xs, caps). length xs,
                          \<lambda>(k, i, p, xs, caps). sum_list (map (fw i) k)]")
     (auto split: if_splits)

text \<open>Abbreviations for writing patterns as the source does.\<close>

definition str :: "string \<Rightarrow> re" where
  "str s = foldr (\<lambda>c r. Seq (Chr (One c)) r) s Eps"

definition stri :: "string \<Rightarrow> re" where
  "stri s = foldr (\<lambda>c r. Seq (Chr (OneI c)) r) s Eps"

definition seqs :: "re list \<Rightarrow> re" where
  "seqs rs = foldr Seq rs Eps"

fun alts :: "re list \<Rightarrow> re" where
  "alts [] = Eps"
| "alts [r] = r"
| "alts (r # rs) = Alt r (alts rs)"

definition Plus :: "re \<Rightarrow> re" where
  "Plus r = Seq r (Star r)"

definition LazyPlus :: "re \<Rightarrow> re" where
  "LazyPlus r = Seq r (LazyStar r)"

definition Opt :: "re \<Rightarrow> re" where
  "Opt r = Alt r Eps"

definition chr :: "char \<Rightarrow> re" where
  "chr c = Chr (One c)"

definition oneOf :: "string \<Rightarrow> re" where
  "oneOf cs = Chr (In (map CChar cs))"

definition noneOf :: "string \<Rightarrow> re" where
  "noneOf cs = Chr (NotIn (map CChar cs))"

text \<open>\<^verbatim>\<open>\s\<close> and \<^verbatim>\<open>[\s\S]\<close>\<close>

definition sp :: re where
  "sp = Chr (In [CSpace])"

definition anyChar :: re where
  "anyChar = Chr (In [CSpace, CNotSpace])"

fun ngroups :: "re \<Rightarrow> nat" where
  "ngroups (Seq a b) = ngroups a + ngroups b"
| "ngroups (Alt a b) = ngroups a + ngroups b"
| "ngroups (Star r) = ngroups r"
| "ngroups (LazyStar r) = ngroups r"
| "ngroups (Group n r) = 1 + ngroups r"
| "ngroups (NotAhead r) = ngroups r"
| "ngroups _ = 0"

text \<open>The text of a capture group as a callback receives it (empty when it took no part).\<close>

text \<open>A chain of method calls \<^verbatim>\<open>s.f1(...).f2(...)\<close>, in the order of the source.\<close>

definition chain :: "'a \<Rightarrow> ('a \<Rightarrow> 'a) list \<Rightarrow> 'a" where
  "chain s fs = foldl (\<lambda>x f. f x) s fs"

definition group :: "caps \<Rightarrow> nat \<Rightarrow> string" where
  "group caps n = (case map_of caps n of None \<Rightarrow> [] | Some s \<Rightarrow> s)"

text \<open>
  \<^verbatim>\<open>s.replace(/r/g, f)\<close>: every match, left to right, is replaced by what \<open>f\<close> makes of
  the matched text, the captures and the offset; after an empty match the search moves on
  by one character.  \<open>s\<close> is the whole input, \<open>xs\<close> what is left of it from \<open>i\<close> on.
\<close>

function replaceAll ::
  "re \<Rightarrow> (string \<Rightarrow> caps \<Rightarrow> nat \<Rightarrow> string) \<Rightarrow> nat \<Rightarrow> char option \<Rightarrow> string \<Rightarrow> string" where
  "replaceAll r f i p xs =
     (case m [R r] i p xs [] of
        None \<Rightarrow> (case xs of [] \<Rightarrow> [] | x # ys \<Rightarrow> x # replaceAll r f (i + 1) (Some x) ys)
      | Some (e, caps) \<Rightarrow>
          f (take (e - i) xs) caps i @
          (if e \<le> i \<or> xs = []
           then (case xs of [] \<Rightarrow> [] | x # ys \<Rightarrow> x # replaceAll r f (i + 1) (Some x) ys)
           else replaceAll r f e (Some (last (take (e - i) xs))) (drop (e - i) xs)))"
  by pat_completeness auto
termination
  by (relation "measure (\<lambda>(r, f, i, p, xs). length xs)") (auto simp: neq_Nil_conv)

declare replaceAll.simps [simp del]

text \<open>A callback \<^verbatim>\<open>(m, p1, p2, ...) => ...\<close>, and a replacement text.\<close>

definition replace_fn :: "re \<Rightarrow> (string \<Rightarrow> caps \<Rightarrow> string) \<Rightarrow> string \<Rightarrow> string" where
  "replace_fn r f s = replaceAll r (\<lambda>matched caps i. f matched caps) 0 None s"

definition replace_g :: "re \<Rightarrow> string \<Rightarrow> string \<Rightarrow> string" where
  "replace_g r rep s =
     replaceAll r
       (\<lambda>matched caps i.
          substitute (ngroups r) (map_of caps) matched (take i s) (drop (i + length matched) s) rep)
       0 None s"

text \<open>\<^verbatim>\<open>s.match(/r/g) || []\<close>: the matched texts, left to right.\<close>

function matchAll :: "re \<Rightarrow> nat \<Rightarrow> char option \<Rightarrow> string \<Rightarrow> string list" where
  "matchAll r i p xs =
     (case m [R r] i p xs [] of
        None \<Rightarrow> (case xs of [] \<Rightarrow> [] | x # ys \<Rightarrow> matchAll r (i + 1) (Some x) ys)
      | Some (e, caps) \<Rightarrow>
          take (e - i) xs #
          (if e \<le> i \<or> xs = []
           then (case xs of [] \<Rightarrow> [] | x # ys \<Rightarrow> matchAll r (i + 1) (Some x) ys)
           else matchAll r e (Some (last (take (e - i) xs))) (drop (e - i) xs)))"
  by pat_completeness auto
termination
  by (relation "measure (\<lambda>(r, i, p, xs). length xs)") (auto simp: neq_Nil_conv)

declare matchAll.simps [simp del]

definition match_g :: "re \<Rightarrow> string \<Rightarrow> string list" where
  "match_g r s = matchAll r 0 None s"

text \<open>\<^verbatim>\<open>/r/.test(s)\<close>: is there a match at some position.\<close>

fun search :: "re \<Rightarrow> nat \<Rightarrow> char option \<Rightarrow> string \<Rightarrow> bool" where
  "search r i p [] = (case m [R r] i p [] [] of Some res \<Rightarrow> True | None \<Rightarrow> False)"
| "search r i p (x # xs) =
     (case m [R r] i p (x # xs) [] of
        Some res \<Rightarrow> True
      | None \<Rightarrow> search r (i + 1) (Some x) xs)"

definition test :: "re \<Rightarrow> string \<Rightarrow> bool" where
  "test r s = search r 0 None s"

section \<open>Content hasher: the validation tag\<close>

text \<open>
  A Node \<^verbatim>\<open>Buffer\<close> is a list of bytes.  \<^verbatim>\<open>etag\<close> (server.js, line 370) and
  \<^verbatim>\<open>AssetProcessor.etag\<close> (the class variant, line 23) are the same code:
  \<^verbatim>\<open>
  let h = 2166136261 >>> 0;
  for (let i = 0; i < buf.length; i++) { h ^= buf[i]; h = Math.imul(h, 16777619); }
  return 'W/"' + (h >>> 0).toString(16) + "-" + buf.length + '"';
  \<close>
  The accumulator is kept as the 32-bit pattern that \<^verbatim>\<open>^=\<close> and \<^verbatim>\<open>Math.imul\<close>
  produce; \<^verbatim>\<open>h >>> 0\<close> reads that pattern as an unsigned number.
\<close>

type_synonym buffer = "8 word list"

definition Math_imul :: "32 word \<Rightarrow> 32 word \<Rightarrow> 32 word" where
  "Math_imul a b = a * b"

function etag_loop :: "buffer \<Rightarrow> nat \<Rightarrow> 32 word \<Rightarrow> 32 word" where
  "etag_loop buf i h =
     (if i < length buf
      then etag_loop buf (i + 1) (Math_imul (h XOR ucast (buf ! i)) 16777619)
      else h)"
  by pat_completeness auto
termination
  by (relation "measure (\<lambda>(buf, i, h). length buf - i)") auto

declare etag_loop.simps [simp del]

definition etag :: "buffer \<Rightarrow> string" where
  "etag buf =
     ''W/\"'' @ numberToString 16 (unat (etag_loop buf 0 2166136261))
       @ ''-'' @ numberToString 10 (length buf) @ ''\"''"

definition fnv1a :: "buffer \<Rightarrow> 32 word" where
  "fnv1a bs = fold (\<lambda>b h. (h XOR ucast b) * 0x01000193) bs 0x811c9dc5"

fun padHex :: "nat \<Rightarrow> nat \<Rightarrow> string" where
  "padHex 0 n = []"
| "padHex (Suc k) n = padHex k (n div 16) @ [digitChar (n mod 16)]"

definition hex8 :: "32 word \<Rightarrow> string" where
  "hex8 w = map (\<lambda>k. digitChar (unat w div 16 ^ k mod 16)) [7, 6, 5, 4, 3, 2, 1, 0]"

definition etag_claimed :: "buffer \<Rightarrow> string" where
  "etag_claimed b = ''W/\"'' @ hex8 (fnv1a b) @ ''-'' @ numberToString 10 (length b) @ ''\"''"

definition stripLeadingZeros :: "string \<Rightarrow> string" where
  "stripLeadingZeros s =
     (case dropWhile (\<lambda>c. c = CHR ''0'') s of [] \<Rightarrow> ''0'' | t \<Rightarrow> t)"

section \<open>Content-Security-Policy\<close>

text \<open>
  Node library functions the repository calls.  \<open>sha256_base64 content\<close> is
  \<^verbatim>\<open>crypto.createHash("sha256").update(content, "utf8").digest("base64")\<close>;
  \<open>utf8_decode\<close> is \<^verbatim>\<open>buf.toString("utf8")\<close> and \<open>utf8_encode\<close> is
  \<^verbatim>\<open>Buffer.from(s, "utf8")\<close>.  \<open>brotliCompress quality buf\<close> and
  \<open>gzip memLevel buf\<close> are the two compressors of \<^verbatim>\<open>zlib\<close>, with the options the
  callers vary; a compressor hands its callback a buffer or an error, and
  \<^verbatim>\<open>zlib.brotliCompress\<close> may also throw where it is called.
\<close>

datatype 'a outcome = Done 'a | Failed | Thrown

record platform =
  sha256_base64 :: "string \<Rightarrow> string"
  utf8_decode :: "buffer \<Rightarrow> string"
  utf8_encode :: "string \<Rightarrow> buffer"
  brotliCompress :: "nat \<Rightarrow> buffer \<Rightarrow> buffer outcome"
  gzip :: "nat option \<Rightarrow> buffer \<Rightarrow> buffer option"

text \<open>
  The inline script and style blocks of a document: \<^verbatim>\<open><script>\<close> elements without a
  \<^verbatim>\<open>src\<close> attribute, and \<^verbatim>\<open><style>\<close> elements.
\<close>

definition inlineScript :: re where
  "inlineScript =
     seqs [stri ''<script'', NotAhead (seqs [Star (noneOf ''>''), stri ''src='']),
           Star (noneOf ''>''), chr CHR ''>'', Group 1 (LazyStar anyChar), stri ''</script>'']"

definition inlineStyle :: re where
  "inlineStyle =
     seqs [stri ''<style'', Star (noneOf ''>''), chr CHR ''>'', Group 1 (LazyStar anyChar),
           stri ''</style>'']"

subsection \<open>server.js, lines 10 to 90\<close>

text \<open>
  \<^verbatim>\<open>cspHashes\<close> is a module-level pair of sets; together with the table \<^verbatim>\<open>files\<close>
  (line 338) it is the state of the server.  The table maps a request path to an entry,
  and the key \<^verbatim>\<open>__csp__\<close> to the policy.
\<close>

record entry =
  path :: string
  mtimeMs :: nat
  type :: string
  cache :: string
  body :: buffer
  etag_of :: string
  br :: "buffer option"
  brEtag :: "string option"
  gz :: "buffer option"
  gzEtag :: "string option"

datatype tableValue = Entry entry | Policy string

record server =
  files :: "string \<rightharpoonup> tableValue"
  scripts :: "string list"
  styles :: "string list"

text \<open>A source expression in single quotes, as \<^verbatim>\<open>'self'\<close>.\<close>

definition quoted :: "string \<Rightarrow> string" where
  "quoted s = [CHR 0x27] @ s @ [CHR 0x27]"

definition calculateHash :: "platform \<Rightarrow> string \<Rightarrow> string" where
  "calculateHash P content = sha256_base64 P content"

definition scriptContent :: "string \<Rightarrow> string" where
  "scriptContent matched =
     trim (replace_g (Alt (seqs [stri ''<script'', Star (noneOf ''>''), chr CHR ''>''])
                          (stri ''</script>'')) '''' matched)"

definition styleContent :: "string \<Rightarrow> string" where
  "styleContent matched =
     trim (replace_g (Alt (seqs [stri ''<style'', Star (noneOf ''>''), chr CHR ''>''])
                          (stri ''</style>'')) '''' matched)"

definition addHash :: "platform \<Rightarrow> string \<Rightarrow> string list \<Rightarrow> string list" where
  "addHash P content hs =
     (if content \<noteq> [] then setAdd (quoted (''sha256-'' @ calculateHash P content)) hs
      else hs)"

definition extractInlineContent :: "platform \<Rightarrow> string \<Rightarrow> server \<Rightarrow> server" where
  "extractInlineContent P html st =
     (let scriptMatches = match_g inlineScript html;
          styleMatches = match_g inlineStyle html
      in st\<lparr>scripts := foldl (\<lambda>hs matched. addHash P (scriptContent matched) hs) [] scriptMatches,
              styles := foldl (\<lambda>hs matched. addHash P (styleContent matched) hs) [] styleMatches\<rparr>)"

definition scriptSrc :: "server \<Rightarrow> string" where
  "scriptSrc st =
     (let scriptSources = scripts st;
          s1 = (if length scriptSources > 0 then quoted ''self'' @ '' '' @ join '' '' scriptSources else quoted ''self'')
      in if length scriptSources = 0 then s1 @ '' '' @ quoted ''unsafe-inline'' else s1)"

definition styleSrc :: "server \<Rightarrow> string" where
  "styleSrc st =
     (let styleSources = styles st;
          s1 = (if length styleSources > 0 then quoted ''self'' @ '' '' @ join '' '' styleSources else quoted ''self'')
      in if length styleSources = 0 then s1 @ '' '' @ quoted ''unsafe-inline'' else s1)"

definition generateCSP :: "server \<Rightarrow> string" where
  "generateCSP st =
     join ''; ''
       [''default-src '' @ quoted ''self'',
        ''script-src '' @ scriptSrc st,
        ''style-src '' @ styleSrc st,
        ''img-src '' @ quoted ''self'' @ '' data: https:'',
        ''font-src '' @ quoted ''self'',
        ''connect-src '' @ quoted ''self'',
        ''media-src '' @ quoted ''self'',
        ''object-src '' @ quoted ''none'',
        ''child-src '' @ quoted ''none'',
        ''worker-src '' @ quoted ''none'',
        ''frame-ancestors '' @ quoted ''none'',
        ''form-action '' @ quoted ''self'',
        ''base-uri '' @ quoted ''self'',
        ''manifest-src '' @ quoted ''self'']"

subsection \<open>The class variant, lines 64 to 119\<close>

text \<open>The class keeps the bare digests in its sets and quotes them when the policy is made.\<close>

definition AP_hash :: "platform \<Rightarrow> string \<Rightarrow> string" where
  "AP_hash P content = sha256_base64 P content"

definition AP_scriptContent :: "string \<Rightarrow> string" where
  "AP_scriptContent matched =
     trim (replace_g (seqs [chr CHR ''<'', Opt (chr CHR ''/''), stri ''script'', Star (noneOf ''>''),
                            chr CHR ''>'']) '''' matched)"

definition AP_styleContent :: "string \<Rightarrow> string" where
  "AP_styleContent matched =
     trim (replace_g (seqs [chr CHR ''<'', Opt (chr CHR ''/''), stri ''style'', Star (noneOf ''>''),
                            chr CHR ''>'']) '''' matched)"

definition AP_addHash :: "platform \<Rightarrow> string \<Rightarrow> string list \<Rightarrow> string list" where
  "AP_addHash P content hs = (if content \<noteq> [] then setAdd (AP_hash P content) hs else hs)"

definition AP_extractCSPHashes :: "platform \<Rightarrow> string \<Rightarrow> server \<Rightarrow> server" where
  "AP_extractCSPHashes P html st =
     st\<lparr>scripts := foldl (\<lambda>hs matched. AP_addHash P (AP_scriptContent matched) hs) []
                       (match_g inlineScript html),
        styles := foldl (\<lambda>hs matched. AP_addHash P (AP_styleContent matched) hs) []
                      (match_g inlineStyle html)\<rparr>"

definition AP_scriptSrc :: "server \<Rightarrow> string" where
  "AP_scriptSrc st =
     (let scriptHashes = map (\<lambda>h. quoted (''sha256-'' @ h)) (scripts st)
      in quoted ''self'' @ (if length scriptHashes \<noteq> 0 then '' '' @ join '' '' scriptHashes else ''''))"

definition AP_styleSrc :: "server \<Rightarrow> string" where
  "AP_styleSrc st =
     (let styleHashes = map (\<lambda>h. quoted (''sha256-'' @ h)) (styles st)
      in quoted ''self'' @ (if length styleHashes \<noteq> 0 then '' '' @ join '' '' styleHashes
                 else '' '' @ quoted ''unsafe-inline''))"

definition AP_generateCSP :: "server \<Rightarrow> string" where
  "AP_generateCSP st =
     join ''; ''
       [''default-src '' @ quoted ''self'',
        ''script-src '' @ AP_scriptSrc st,
        ''script-src-elem '' @ AP_scriptSrc st,
        ''style-src '' @ AP_styleSrc st,
        ''style-src-elem '' @ AP_styleSrc st,
        ''img-src '' @ quoted ''self'' @ '' https: data:'',
        ''font-src '' @ quoted ''self'',
        ''connect-src '' @ quoted ''self'',
        ''media-src '' @ quoted ''self'' @ '' data:'',
        ''object-src '' @ quoted ''none'',
        ''child-src '' @ quoted ''none'',
        ''worker-src '' @ quoted ''none'',
        ''frame-ancestors '' @ quoted ''none'',
        ''form-action '' @ quoted ''self'',
        ''base-uri '' @ quoted ''self'',
        ''manifest-src '' @ quoted ''self'',
        ''upgrade-insecure-requests'']"

section \<open>Text minifiers\<close>

subsection \<open>CSS (server.js, line 92)\<close>

text \<open>The callbacks of \<^verbatim>\<open>minifyCSS\<close>, in the order of the source.\<close>

definition toHex :: "string \<Rightarrow> string" where
  "toHex n = padStart 2 CHR ''0'' (numberToString 16 (parseInt n))"

definition rgbToHex :: "string \<Rightarrow> caps \<Rightarrow> string" where
  "rgbToHex matched g = ''#'' @ toHex (group g 1) @ toHex (group g 2) @ toHex (group g 3)"

definition calcCompact :: "string \<Rightarrow> caps \<Rightarrow> string" where
  "calcCompact matched g = ''calc('' @ replace_g (Plus sp) '''' (group g 1) @ '')''"

definition unquoteIdent :: "string \<Rightarrow> caps \<Rightarrow> string" where
  "unquoteIdent matched g =
     (if test (seqs [Bos, Chr (In [CRange CHR ''a'' CHR ''z'', CRange CHR ''A'' CHR ''Z'',
                                   CChar CHR ''-'', CChar CHR ''_'']),
                     Star (Chr (In [CRange CHR ''a'' CHR ''z'', CRange CHR ''A'' CHR ''Z'',
                                    CRange CHR ''0'' CHR ''9'', CChar CHR ''-'', CChar CHR ''_''])),
                     Eos])
              (group g 2)
      then group g 2 else matched)"

definition mergeRules :: "string \<Rightarrow> caps \<Rightarrow> string" where
  "mergeRules matched g =
     (if group g 2 = group g 4
      then group g 1 @ '','' @ group g 3 @ ''{'' @ group g 2 @ ''}''
      else matched)"

definition boxShorthand :: "string \<Rightarrow> caps \<Rightarrow> string" where
  "boxShorthand matched g =
     (case splitSpaces [] (trim (group g 2)) of
        [t, r, b, l] \<Rightarrow>
          if t = r \<and> r = b \<and> b = l then group g 1 @ '':'' @ t
          else if t = b \<and> r = l then group g 1 @ '':'' @ t @ '' '' @ r
          else matched
      | [tb, lr] \<Rightarrow> if tb = lr then group g 1 @ '':'' @ tb else matched
      | _ \<Rightarrow> matched)"

definition radiusShorthand :: "string \<Rightarrow> caps \<Rightarrow> string" where
  "radiusShorthand matched g =
     (let parts = splitSpaces [] (trim (group g 1))
      in if length parts = 4 \<and> list_all (\<lambda>p. p = parts ! 0) parts
         then ''border-radius:'' @ parts ! 0 else matched)"

definition scaleCompact :: "string \<Rightarrow> caps \<Rightarrow> string" where
  "scaleCompact matched g =
     (if group g 1 = group g 2 then ''scale('' @ group g 1 @ '')''
      else ''scale('' @ group g 1 @ '','' @ group g 2 @ '')'')"

definition linearGradient :: "string \<Rightarrow> caps \<Rightarrow> string" where
  "linearGradient matched g =
     ''linear-gradient('' @ replace_g (seqs [Star sp, chr CHR '','', Star sp]) '','' (group g 1) @ '')''"

definition radialGradient :: "string \<Rightarrow> caps \<Rightarrow> string" where
  "radialGradient matched g =
     ''radial-gradient('' @ replace_g (seqs [Star sp, chr CHR '','', Star sp]) '','' (group g 1) @ '')''"

text \<open>Pieces several patterns share: a hex digit, \<^verbatim>\<open>\d+\<close>, \<^verbatim>\<open>\r?\n\<close>.\<close>

definition hexDigit :: re where
  "hexDigit = Chr (In [CRange CHR ''0'' CHR ''9'', CRange CHR ''a'' CHR ''f'', CRange CHR ''A'' CHR ''F''])"

definition digits :: re where
  "digits = Plus (Chr (In [CDigit]))"

definition newline :: re where
  "newline = seqs [Opt (chr CHR 0x0D), chr CHR 0x0A]"

definition minifyCSS :: "string \<Rightarrow> string" where
  "minifyCSS src =
     trim (replace_g newline ''''
      (chain src
        [replace_g (seqs [str ''/*'', LazyStar anyChar, str ''*/'']) '''',
         replace_g (Plus sp) '' '',
         replace_g (seqs [Star sp,
                          Group 1 (oneOf (''{}:;,>+~()[]'' @ [CHR 0x27, CHR 0x22] @ ''*/'')),
                          Star sp]) ''$1'',
         replace_g (str '';}'') ''}'',
         replace_g (seqs [WordB, Plus (chr CHR ''0''),
                          Group 1 (alts [str ''px'', str ''em'', str ''rem'', str ''vh'',
                                         str ''vw'', str ''%'', str ''s'', str ''ms'']),
                          WordB]) ''0'',
         replace_g (seqs [WordB, Plus (chr CHR ''0''), chr CHR ''.'', Group 1 digits]) ''.$1'',
         replace_g (seqs [chr CHR ''#'', Group 1 hexDigit, Backref 1, Group 2 hexDigit, Backref 2,
                          Group 3 hexDigit, Backref 3, WordB]) ''#$1$2$3'',
         replace_fn (seqs [str ''rgb('', Star sp, Group 1 digits, Star sp, chr CHR '','',
                           Star sp, Group 2 digits, Star sp, chr CHR '','',
                           Star sp, Group 3 digits, Star sp, chr CHR '')'']) rgbToHex,
         replace_fn (seqs [str ''calc('', Star sp, Group 1 (Plus (noneOf '')'')), Star sp,
                           chr CHR '')'']) calcCompact,
         replace_fn (seqs [Group 1 (oneOf [CHR 0x27, CHR 0x22]),
                           Group 2 (Plus (Chr (In [CRange CHR ''a'' CHR ''z'',
                              CRange CHR ''A'' CHR ''Z'', CRange CHR ''0'' CHR ''9'',
                              CChar CHR ''-'', CChar CHR ''_'']))),
                           Backref 1]) unquoteIdent,
         replace_fn (seqs [Group 1 (Plus (noneOf ''{}'')), chr CHR ''{'',
                           Group 2 (Star (noneOf ''}'')), chr CHR ''}'',
                           Group 3 (Plus (noneOf ''{}'')), chr CHR ''{'',
                           Group 4 (Star (noneOf ''}'')), chr CHR ''}'']) mergeRules,
         replace_g (seqs [Plus (noneOf ''{}''), chr CHR ''{'', Star sp, chr CHR ''}'']) '''',
         replace_fn (seqs [Group 1 (alts [str ''margin'', str ''padding'']), chr CHR '':'',
                           Group 2 (Plus (noneOf '';''))]) boxShorthand,
         replace_fn (seqs [str ''border-radius:'', Group 1 (Plus (noneOf '';''))]) radiusShorthand,
         replace_g (seqs [str ''-webkit-'',
                          Group 1 (alts [str ''transform'', str ''transition'', str ''animation'',
                                         str ''box-shadow'', str ''border-radius'']),
                          chr CHR '':'']) ''$1:'',
         replace_g (seqs [str ''-moz-'',
                          Group 1 (alts [str ''transform'', str ''transition'', str ''animation'',
                                         str ''box-shadow'', str ''border-radius'']),
                          chr CHR '':'']) ''$1:'',
         replace_g (seqs [str ''-ms-'',
                          Group 1 (alts [str ''transform'', str ''transition'', str ''animation'']),
                          chr CHR '':'']) ''$1:'',
         replace_g (seqs [str ''translate('', Star sp, Group 1 (Plus (noneOf '','')), Star sp,
                          chr CHR '','', Star sp, Group 2 (Plus (noneOf '')'')), Star sp,
                          chr CHR '')'']) ''translate($1,$2)'',
         replace_fn (seqs [str ''scale('', Star sp, Group 1 (Plus (noneOf '','')), Star sp,
                           chr CHR '','', Star sp, Group 2 (Plus (noneOf '')'')), Star sp,
                           chr CHR '')'']) scaleCompact,
         replace_g (seqs [str ''@media'', Plus sp, Group 1 (Plus (noneOf ''{'')), Star sp,
                          chr CHR ''{'']) ''@media $1{'',
         replace_fn (seqs [str ''linear-gradient('', Star sp, Group 1 (Plus (noneOf '')'')),
                           Star sp, chr CHR '')'']) linearGradient,
         replace_fn (seqs [str ''radial-gradient('', Star sp, Group 1 (Plus (noneOf '')'')),
                           Star sp, chr CHR '')'']) radialGradient,
         replace_g (seqs [chr CHR '','', Plus sp]) '','',
         replace_g (seqs [chr CHR '':'', Plus sp]) '':'',
         replace_g (seqs [chr CHR '';'', Plus sp]) '';'',
         replace_g (seqs [chr CHR ''{'', Plus sp]) ''{'',
         replace_g (seqs [Plus sp, chr CHR ''}'']) ''}'',
         replace_g (seqs [chr CHR ''>'', Plus sp]) ''>'',
         replace_g (seqs [chr CHR ''+'', Plus sp]) ''+'',
         replace_g (seqs [chr CHR ''~'', Plus sp]) ''~'']))"

subsection \<open>HTML (server.js, line 177)\<close>

definition minifyStyleBlock :: "string \<Rightarrow> caps \<Rightarrow> string" where
  "minifyStyleBlock matched g = replaceFirst (group g 1) (minifyCSS (group g 1)) matched"

definition unquoteAttr :: "string \<Rightarrow> caps \<Rightarrow> string" where
  "unquoteAttr matched g =
     (if test (seqs [Bos, Plus (Chr (In [CRange CHR ''a'' CHR ''z'', CRange CHR ''A'' CHR ''Z'',
                                         CRange CHR ''0'' CHR ''9'', CChar CHR ''.'', CChar CHR ''_'',
                                         CChar CHR '':'', CChar CHR ''/'', CChar CHR ''-''])),
                     Eos])
              (group g 2)
      then '' '' @ group g 1 @ ''='' @ group g 2 else matched)"

definition quote :: re where
  "quote = oneOf [CHR 0x22, CHR 0x27]"

definition minifyHTML :: "string \<Rightarrow> string" where
  "minifyHTML src =
     trim (replace_g newline ''''
      (chain src
        [replace_g (seqs [str ''<!--'', NotAhead (str ''[if''), LazyStar anyChar, str ''-->'']) '''',
         replace_g (seqs [chr CHR ''>'', Plus sp, chr CHR ''<'']) ''><'',
         replace_g (seqs [chr CHR ''>'', Plus sp, Group 1 (LazyPlus (noneOf ''<'')), Plus sp,
                          chr CHR ''<'']) ''>$1<'',
         replace_fn (seqs [stri ''<style'', Star (noneOf ''>''), chr CHR ''>'',
                           Group 1 (LazyStar anyChar), stri ''</style>'']) minifyStyleBlock,
         replace_fn (seqs [Plus sp, Group 1 (Plus (Chr (In [CWord, CChar CHR ''-'']))), chr CHR ''='',
                           quote,
                           Group 2 (Plus (Chr (NotIn [CChar CHR 0x22, CChar CHR 0x27, CSpace,
                                                      CChar CHR ''<'', CChar CHR ''>'']))),
                           quote]) unquoteAttr,
         replace_g (seqs [Star sp, chr CHR ''='', Star sp]) ''='',
         replace_g (seqs [Plus sp, chr CHR ''>'']) ''>'',
         replace_g (seqs [sp, sp, Star sp]) '' '',
         replace_g (seqs [chr CHR ''<'', Group 1 (Plus (noneOf ''>'')), Plus sp, chr CHR ''>'']) ''<$1>'',
         replace_g (seqs [Plus sp, Plus (Chr (In [CWord, CChar CHR ''-''])), chr CHR ''='',
                          quote, quote]) '''',
         replace_g (seqs [Plus sp, str ''type='', quote, str ''text/'',
                          Group 1 (alts [str ''javascript'', str ''css'']), quote]) '''']))"

subsection \<open>JavaScript (server.js, line 199)\<close>

text \<open>
  \<^verbatim>\<open>minifyJS\<close> scans its input twice, each time with the variables \<^verbatim>\<open>inStr\<close>,
  \<^verbatim>\<open>strQuote\<close>, \<^verbatim>\<open>inTemplate\<close> and \<^verbatim>\<open>escape\<close>.  A \<open>scan\<close> is the state of one
  pass: \<open>acc\<close> is the text built so far (\<^verbatim>\<open>out\<close> in the first pass, \<^verbatim>\<open>finalOut\<close> in
  the second) and \<open>idx\<close> the index into the text read (\<^verbatim>\<open>i\<close>, then \<^verbatim>\<open>j\<close>).
\<close>

record scan =
  acc :: string
  idx :: nat
  inStr :: bool
  strQuote :: string
  inTemplate :: bool
  escape :: bool

definition scan0 :: scan where
  "scan0 = \<lparr>acc = [], idx = 0, inStr = False, strQuote = [], inTemplate = False, escape = False\<rparr>"

text \<open>
  The inner loops of the first pass:
  \<^verbatim>\<open>while (i < n && !(src[i] === "*" && src[i + 1] === "/")) i++;\<close> and
  \<^verbatim>\<open>while (i < n && src[i] !== "\n") i++;\<close>
\<close>

function skipBlockComment :: "string \<Rightarrow> nat \<Rightarrow> nat" where
  "skipBlockComment src i =
     (if i < length src \<and> \<not> (src ! i = CHR ''*'' \<and> charAt src (i + 1) = Some CHR ''/'')
      then skipBlockComment src (i + 1) else i)"
  by pat_completeness auto
termination
  by (relation "measure (\<lambda>(src, i). length src - i)") auto

function skipLineComment :: "string \<Rightarrow> nat \<Rightarrow> nat" where
  "skipLineComment src i =
     (if i < length src \<and> src ! i \<noteq> CHR 0x0A then skipLineComment src (i + 1) else i)"
  by pat_completeness auto
termination
  by (relation "measure (\<lambda>(src, i). length src - i)") auto

declare skipBlockComment.simps [simp del] skipLineComment.simps [simp del]

text \<open>
  What both passes do with a character inside a string or a template, and at an opening
  quote or backtick (lines 212 to 246 and 273 to 303): the character is copied.
\<close>

definition inString :: "char \<Rightarrow> scan \<Rightarrow> scan" where
  "inString ch s =
     s\<lparr>acc := acc s @ [ch],
       inStr := \<not> (\<not> escape s \<and> [ch] = strQuote s),
       strQuote := (if \<not> escape s \<and> [ch] = strQuote s then [] else strQuote s),
       escape := (\<not> escape s \<and> ch = CHR 0x5C),
       idx := idx s + 1\<rparr>"

definition inTemplateLiteral :: "char \<Rightarrow> scan \<Rightarrow> scan" where
  "inTemplateLiteral ch s =
     s\<lparr>acc := acc s @ [ch],
       inTemplate := \<not> (\<not> escape s \<and> ch = CHR 0x60),
       escape := (\<not> escape s \<and> ch = CHR 0x5C),
       idx := idx s + 1\<rparr>"

definition openString :: "char \<Rightarrow> scan \<Rightarrow> scan" where
  "openString ch s = s\<lparr>inStr := True, strQuote := [ch], acc := acc s @ [ch], idx := idx s + 1\<rparr>"

definition openTemplate :: "char \<Rightarrow> scan \<Rightarrow> scan" where
  "openTemplate ch s = s\<lparr>inTemplate := True, acc := acc s @ [ch], idx := idx s + 1\<rparr>"

text \<open>One iteration of the first loop (line 208), entered with \<open>idx s < length src\<close>.\<close>

definition step1 :: "string \<Rightarrow> scan \<Rightarrow> scan" where
  "step1 src s =
     (let ch = src ! idx s; next = charAt src (idx s + 1)
      in if inStr s then inString ch s
         else if inTemplate s then inTemplateLiteral ch s
         else if ch = CHR 0x22 \<or> ch = CHR 0x27 then openString ch s
         else if ch = CHR 0x60 then openTemplate ch s
         else if ch = CHR ''/'' \<and> next = Some CHR ''*''
           then s\<lparr>idx := skipBlockComment src (idx s + 2) + 2\<rparr>
         else if ch = CHR ''/'' \<and> next = Some CHR ''/''
           then s\<lparr>idx := skipLineComment src (idx s + 2)\<rparr>
         else s\<lparr>acc := acc s @ [ch], idx := idx s + 1\<rparr>)"

lemma skipBlockComment_ge: "i \<le> skipBlockComment src i"
  by (induction src i rule: skipBlockComment.induct)
     (subst skipBlockComment.simps, auto)

lemma skipLineComment_ge: "i \<le> skipLineComment src i"
  by (induction src i rule: skipLineComment.induct)
     (subst skipLineComment.simps, auto)

lemma step1_advances: "idx s < idx (step1 src s)"
proof -
  have "idx s + 2 \<le> skipBlockComment src (idx s + 2)" by (rule skipBlockComment_ge)
  moreover have "idx s + 2 \<le> skipLineComment src (idx s + 2)" by (rule skipLineComment_ge)
  ultimately show ?thesis
    by (simp add: step1_def Let_def inString_def inTemplateLiteral_def openString_def
        openTemplate_def)
qed

function pass1 :: "string \<Rightarrow> scan \<Rightarrow> scan" where
  "pass1 src s = (if idx s < length src then pass1 src (step1 src s) else s)"
  by pat_completeness auto
termination
proof (relation "measure (\<lambda>(src, s). length src - idx s)")
  fix src :: string and s :: scan
  assume "idx s < length src"
  then show "((src, step1 src s), (src, s)) \<in> measure (\<lambda>(src, s). length src - idx s)"
    using step1_advances [of s src] by simp
qed simp

declare pass1.simps [simp del]

text \<open>
  The second pass (line 269).  \<^verbatim>\<open>prev\<close> is the last character written, \<^verbatim>\<open>undefined\<close>
  when nothing is written yet; \<^verbatim>\<open>nxt\<close> is \<^verbatim>\<open>undefined\<close> past the end.  A regular
  expression tested on \<^verbatim>\<open>undefined\<close> is tested on the text \<^verbatim>\<open>"undefined"\<close>.
\<close>

definition String :: "char option \<Rightarrow> string" where
  "String v = (case v of None \<Rightarrow> ''undefined'' | Some c \<Rightarrow> [c])"

definition identChar :: re where
  "identChar = Chr (In [CRange CHR ''a'' CHR ''z'', CRange CHR ''A'' CHR ''Z'',
                        CRange CHR ''0'' CHR ''9'', CChar CHR ''_'', CChar CHR ''$''])"

definition identCharOrQuote :: re where
  "identCharOrQuote = Chr (In [CRange CHR ''a'' CHR ''z'', CRange CHR ''A'' CHR ''Z'',
                        CRange CHR ''0'' CHR ''9'', CChar CHR ''_'', CChar CHR ''$'', CChar CHR 0x22])"

definition operatorChar :: re where
  "operatorChar = oneOf ''=;:,{}()<>+-*/?|&!''"

text \<open>\<^verbatim>\<open>while (k < out.length && /\s/.test(out[k])) k++;\<close>\<close>

function skipSpaces :: "string \<Rightarrow> nat \<Rightarrow> nat" where
  "skipSpaces out k =
     (if k < length out \<and> test sp [out ! k] then skipSpaces out (k + 1) else k)"
  by pat_completeness auto
termination
  by (relation "measure (\<lambda>(out, k). length out - k)") auto

declare skipSpaces.simps [simp del]

definition step2 :: "string \<Rightarrow> scan \<Rightarrow> scan" where
  "step2 out s =
     (let ch = out ! idx s;
          prev = (if acc s = [] then None else Some (last (acc s)))
      in if inStr s then inString ch s
         else if inTemplate s then inTemplateLiteral ch s
         else if ch = CHR 0x22 \<or> ch = CHR 0x27 then openString ch s
         else if ch = CHR 0x60 then openTemplate ch s
         else if test sp [ch] then
           (let k = skipSpaces out (idx s + 1); nxt = charAt out k
            in s\<lparr>acc := (if (test identChar (String prev) \<and> test identChar (String nxt))
                             \<or> ((case prev of None \<Rightarrow> False | Some c \<Rightarrow> [c] = ''return'')
                                 \<and> test identCharOrQuote (String nxt))
                          then acc s @ '' '' else acc s),
                  idx := k\<rparr>)
         else s\<lparr>acc := (if test operatorChar [ch] \<and> endsWith (acc s) '' ''
                          then butlast (acc s) else acc s) @ [ch],
                idx := idx s + 1\<rparr>)"

lemma skipSpaces_ge: "k \<le> skipSpaces out k"
  by (induction out k rule: skipSpaces.induct)
     (subst skipSpaces.simps, auto)

lemma step2_advances: "idx s < idx (step2 out s)"
proof -
  have "idx s + 1 \<le> skipSpaces out (idx s + 1)" by (rule skipSpaces_ge)
  then show ?thesis
    by (simp add: step2_def Let_def inString_def inTemplateLiteral_def openString_def
        openTemplate_def)
qed

function pass2 :: "string \<Rightarrow> scan \<Rightarrow> scan" where
  "pass2 out s = (if idx s < length out then pass2 out (step2 out s) else s)"
  by pat_completeness auto
termination
proof (relation "measure (\<lambda>(out, s). length out - idx s)")
  fix out :: string and s :: scan
  assume "idx s < length out"
  then show "((out, step2 out s), (out, s)) \<in> measure (\<lambda>(out, s). length out - idx s)"
    using step2_advances [of s out] by simp
qed simp

declare pass2.simps [simp del]

definition minifyJS :: "string \<Rightarrow> string" where
  "minifyJS src =
     (let out = acc (pass1 src scan0);
          finalOut = acc (pass2 out scan0)
      in trim (chain finalOut
           [replace_g newline '''',
            replace_g (str '';}'') ''}'',
            replace_g (str ''===true'') '''',
            replace_g (str ''!==false'') '''',
            replace_g (str ''==true'') '''',
            replace_g (str ''!=false'') '''',
            replace_g (seqs [str [CHR ''['', CHR 0x22],
                             Group 1 (seqs [Chr (In [CRange CHR ''a'' CHR ''z'', CRange CHR ''A'' CHR ''Z'',
                                                     CChar CHR ''_'', CChar CHR ''$'']),
                                            Star identChar]),
                             str [CHR 0x22, CHR '']'']]) ''.$1'']))"

subsection \<open>The minifiers of the class variant (lines 121 to 192)\<close>

definition AP_minifyCSS :: "string \<Rightarrow> string" where
  "AP_minifyCSS src =
     trim (chain src
        [replace_g (seqs [str ''/*'', LazyStar anyChar, str ''*/'']) '''',
         replace_g (Plus sp) '' '',
         replace_g (seqs [Star sp,
                          Group 1 (oneOf (''{}:;,>+~()[]'' @ [CHR 0x27, CHR 0x22] @ ''*/'')),
                          Star sp]) ''$1'',
         replace_g (str '';}'') ''}'',
         replace_g (seqs [WordB, Plus (chr CHR ''0''),
                          Group 1 (alts [str ''px'', str ''em'', str ''rem'', str ''vh'',
                                         str ''vw'', str ''%'', str ''s'', str ''ms'']),
                          WordB]) ''0'',
         replace_g (seqs [chr CHR ''#'', Group 1 hexDigit, Backref 1, Group 2 hexDigit, Backref 2,
                          Group 3 hexDigit, Backref 3, WordB]) ''#$1$2$3'',
         replace_fn (seqs [str ''rgb('', Star sp, Group 1 digits, Star sp, chr CHR '','',
                           Star sp, Group 2 digits, Star sp, chr CHR '','',
                           Star sp, Group 3 digits, Star sp, chr CHR '')'']) rgbToHex,
         replace_g (seqs [chr CHR '','', Plus sp]) '','',
         replace_g (seqs [chr CHR '':'', Plus sp]) '':'',
         replace_g (seqs [chr CHR '';'', Plus sp]) '';'',
         replace_g (seqs [chr CHR ''{'', Plus sp]) ''{'',
         replace_g (seqs [Plus sp, chr CHR ''}'']) ''}'',
         replace_g newline ''''])"

definition AP_minifyStyleBlock :: "string \<Rightarrow> caps \<Rightarrow> string" where
  "AP_minifyStyleBlock matched g = replaceFirst (group g 1) (AP_minifyCSS (group g 1)) matched"

definition AP_minifyHTML :: "string \<Rightarrow> string" where
  "AP_minifyHTML src =
     trim (chain src
        [replace_g (seqs [str ''<!--'', NotAhead (str ''[if''), LazyStar anyChar, str ''-->'']) '''',
         replace_g (seqs [chr CHR ''>'', Plus sp, chr CHR ''<'']) ''><'',
         replace_g (seqs [chr CHR ''>'', Plus sp, Group 1 (LazyPlus (noneOf ''<'')), Plus sp,
                          chr CHR ''<'']) ''>$1<'',
         replace_fn (seqs [stri ''<style'', Star (noneOf ''>''), chr CHR ''>'',
                           Group 1 (LazyStar anyChar), stri ''</style>'']) AP_minifyStyleBlock,
         replace_fn (seqs [Plus sp, Group 1 (Plus (Chr (In [CWord, CChar CHR ''-'']))), chr CHR ''='',
                           quote,
                           Group 2 (Plus (Chr (NotIn [CChar CHR 0x22, CChar CHR 0x27, CSpace,
                                                      CChar CHR ''<'', CChar CHR ''>'']))),
                           quote]) unquoteAttr,
         replace_g (seqs [Star sp, chr CHR ''='', Star sp]) ''='',
         replace_g (seqs [Plus sp, chr CHR ''>'']) ''>'',
         replace_g (seqs [sp, sp, Star sp]) '' '',
         replace_g (seqs [Plus sp, str ''type='', quote, str ''text/'',
                          Group 1 (alts [str ''javascript'', str ''css'']), quote]) '''',
         replace_g newline ''''])"

text \<open>
  \<^verbatim>\<open>AssetProcessor.minifyJS\<close> replaces every string and template literal by a numbered
  placeholder, minifies what is left, and puts the literals back.  The callback of the
  first \<^verbatim>\<open>replace\<close> counts the matches; \<open>replaceCounting\<close> is \<open>replaceAll\<close> with that
  counter.
\<close>

function replaceCounting ::
  "re \<Rightarrow> (nat \<Rightarrow> string) \<Rightarrow> nat \<Rightarrow> nat \<Rightarrow> char option \<Rightarrow> string \<Rightarrow> string" where
  "replaceCounting r f n i p xs =
     (case m [R r] i p xs [] of
        None \<Rightarrow> (case xs of [] \<Rightarrow> [] | x # ys \<Rightarrow> x # replaceCounting r f n (i + 1) (Some x) ys)
      | Some (e, caps) \<Rightarrow>
          f n @
          (if e \<le> i \<or> xs = []
           then (case xs of [] \<Rightarrow> []
                 | x # ys \<Rightarrow> x # replaceCounting r f (n + 1) (i + 1) (Some x) ys)
           else replaceCounting r f (n + 1) e (Some (last (take (e - i) xs))) (drop (e - i) xs)))"
  by pat_completeness auto
termination
  by (relation "measure (\<lambda>(r, f, n, i, p, xs). length xs)") (auto simp: neq_Nil_conv)

declare replaceCounting.simps [simp del]

definition stringLiteral :: re where
  "stringLiteral =
     seqs [Group 1 (oneOf [CHR 0x22, CHR 0x27, CHR 0x60]),
           Group 2 (LazyStar (Alt (seqs [chr CHR 0x5C, Chr Dot])
                                  (seqs [NotAhead (Backref 1), noneOf [CHR 0x5C]]))),
           Backref 1]"

definition placeholder :: "nat \<Rightarrow> string" where
  "placeholder n = ''__STRING_'' @ numberToString 10 n @ ''__''"

definition AP_minifyJS :: "string \<Rightarrow> string" where
  "AP_minifyJS src =
     (let originals = match_g stringLiteral src;
          preserveStrings = zip (map placeholder [0..<length originals]) originals;
          out0 = replaceCounting stringLiteral placeholder 0 0 None src;
          out1 = chain out0
            [replace_g (seqs [str ''/*'', LazyStar anyChar, str ''*/'']) '''',
             replace_g (seqs [str ''//'', Star (Chr Dot), EolM]) ''''];
          out2 = trim (chain out1
            [replace_g (Plus sp) '' '',
             replace_g (seqs [Star sp, Group 1 operatorChar, Star sp]) ''$1'',
             replace_g (str '';}'') ''}''])
      in foldl (\<lambda>out (ph, original). replaceFirst ph original out) out2 preserveStrings)"

section \<open>The build\<close>

text \<open>
  The working directory, as the build reads it: a path relative to \<^verbatim>\<open>ROOT\<close> is absent,
  or names a file with its bytes and modification time, or names something that exists and
  cannot be read as a file (a directory, a file without read permission).
\<close>

datatype fsNode = File buffer nat | Unreadable nat

type_synonym fs = "string \<rightharpoonup> fsNode"

datatype error = ReadError string | InvalidHeaderValue string

definition existsSync :: "fs \<Rightarrow> string \<Rightarrow> bool" where
  "existsSync fs p = (case fs p of None \<Rightarrow> False | Some node \<Rightarrow> True)"

definition readFile :: "fs \<Rightarrow> string \<Rightarrow> error + buffer" where
  "readFile fs p = (case fs p of Some (File b t) \<Rightarrow> Inr b | _ \<Rightarrow> Inl (ReadError p))"

definition stat :: "fs \<Rightarrow> string \<Rightarrow> error + nat" where
  "stat fs p =
     (case fs p of None \<Rightarrow> Inl (ReadError p) | Some (File b t) \<Rightarrow> Inr t | Some (Unreadable t) \<Rightarrow> Inr t)"

text \<open>
  \<^verbatim>\<open>path.extname\<close> (POSIX): the text from the last dot of the last path segment, empty
  when there is no dot, when the segment starts with its only dot, or when it is \<^verbatim>\<open>..\<close>.
\<close>

definition basename :: "string \<Rightarrow> string" where
  "basename p =
     (let q = rev (dropWhile (\<lambda>c. c = CHR ''/'') (rev p))
      in rev (takeWhile (\<lambda>c. c \<noteq> CHR ''/'') (rev q)))"

definition extname :: "string \<Rightarrow> string" where
  "extname p =
     (let b = basename p;
          ext = rev (takeWhile (\<lambda>c. c \<noteq> CHR ''.'') (rev b))
      in if CHR ''.'' \<in> set b
         then (if length ext + 1 = length b \<or> b = ''..'' then [] else CHR ''.'' # ext)
         else [])"

text \<open>
  \<^verbatim>\<open>contentTypeFor\<close> and \<^verbatim>\<open>cacheControlFor\<close> (server.js, lines 340 and 360); the
  class has the same two tables as \<^verbatim>\<open>getContentType\<close> and \<^verbatim>\<open>getCacheControl\<close>.
\<close>

definition contentTypeFor :: "string \<Rightarrow> string" where
  "contentTypeFor fp =
     (let ext = toLowerCase (extname fp)
      in if ext = ''.html'' then ''text/html; charset=utf-8''
         else if ext = ''.css'' then ''text/css; charset=utf-8''
         else if ext = ''.js'' then ''application/javascript; charset=utf-8''
         else if ext = ''.webp'' then ''image/webp''
         else if ext = ''.xml'' then ''application/xml; charset=utf-8''
         else if ext = ''.txt'' then ''text/plain; charset=utf-8''
         else ''application/octet-stream'')"

definition cacheControlFor :: "string \<Rightarrow> string" where
  "cacheControlFor fp =
     (let ext = toLowerCase (extname fp)
      in if ext = ''.html'' then ''no-cache''
         else if ext = ''.css'' \<or> ext = ''.js'' then ''public, max-age=31536000, immutable''
         else if ext = ''.webp'' then ''public, max-age=31536000, immutable''
         else if ext = ''.xml'' \<or> ext = ''.txt'' then ''public, max-age=3600''
         else ''public, max-age=3600'')"

text \<open>The key of an entry: \<^verbatim>\<open>"/" + relPath.replace(/\\/g, "/")\<close>.\<close>

definition publicPath :: "string \<Rightarrow> string" where
  "publicPath relPath = ''/'' @ replace_g (chr CHR 0x5C) ''/'' relPath"

subsection \<open>server.js, lines 379 to 495\<close>

text \<open>
  \<^verbatim>\<open>preCompress\<close>: Brotli first, then Gzip from Brotli's callback; when the call of
  \<^verbatim>\<open>zlib.brotliCompress\<close> throws, Gzip alone with its default memory level.  The result
  is the pair of \<^verbatim>\<open>result.br\<close> and \<^verbatim>\<open>result.gz\<close>.
\<close>

definition preCompress :: "platform \<Rightarrow> buffer \<Rightarrow> buffer option \<times> buffer option" where
  "preCompress P buf =
     (case brotliCompress P 11 buf of
        Done b \<Rightarrow> (Some b, gzip P (Some 9) buf)
      | Failed \<Rightarrow> (None, gzip P (Some 9) buf)
      | Thrown \<Rightarrow> (None, gzip P None buf))"

definition makeEntry ::
  "string \<Rightarrow> nat \<Rightarrow> buffer \<Rightarrow> buffer option \<times> buffer option \<Rightarrow> entry" where
  "makeEntry relPath mtime content compressed =
     \<lparr>path = relPath,
      mtimeMs = mtime,
      type = contentTypeFor relPath,
      cache = cacheControlFor relPath,
      body = content,
      etag_of = etag content,
      br = fst compressed,
      brEtag = (case fst compressed of Some b \<Rightarrow> Some (etag b) | None \<Rightarrow> None),
      gz = snd compressed,
      gzEtag = (case snd compressed of Some g \<Rightarrow> Some (etag g) | None \<Rightarrow> None)\<rparr>"

text \<open>
  An \<^verbatim>\<open>async\<close> function either fulfils or rejects.  The result of a step is the state it
  leaves and, when it rejected, the error.
\<close>

definition loadAndMinify ::
  "platform \<Rightarrow> fs \<Rightarrow> string \<Rightarrow> (string \<Rightarrow> string) option \<Rightarrow> server \<Rightarrow> error option \<times> server" where
  "loadAndMinify P fs relPath minify st =
     (case readFile fs relPath of
        Inl e \<Rightarrow> (Some e, st)
      | Inr src \<Rightarrow>
          (let originalContent = utf8_decode P src;
               st1 = (if relPath = ''index.html'' then extractInlineContent P originalContent st
                      else st);
               content = (case minify of
                            Some f \<Rightarrow> utf8_encode P (f originalContent)
                          | None \<Rightarrow> src);
               compressed = preCompress P content
           in case stat fs relPath of
                Inl e \<Rightarrow> (Some e, st1)
              | Inr mtime \<Rightarrow>
                  (None, st1\<lparr>files := (files st1)(publicPath relPath \<mapsto>
                                 Entry (makeEntry relPath mtime content compressed))\<rparr>)))"

text \<open>\<^verbatim>\<open>await\<close> in sequence: a rejection ends the function.\<close>

definition andThen ::
  "error option \<times> server \<Rightarrow> (server \<Rightarrow> error option \<times> server) \<Rightarrow> error option \<times> server" where
  "andThen r f = (case r of (Some e, st) \<Rightarrow> (Some e, st) | (None, st) \<Rightarrow> f st)"

fun loadStatic :: "platform \<Rightarrow> fs \<Rightarrow> string list \<Rightarrow> server \<Rightarrow> error option \<times> server" where
  "loadStatic P fs [] st = (None, st)"
| "loadStatic P fs (f # rest) st =
     (if existsSync fs f
      then andThen (loadAndMinify P fs f None st) (loadStatic P fs rest)
      else loadStatic P fs rest st)"

definition server0 :: server where
  "server0 = \<lparr>files = Map.empty, scripts = [], styles = []\<rparr>"

definition build :: "platform \<Rightarrow> fs \<Rightarrow> server \<Rightarrow> error option \<times> server" where
  "build P fs st =
     andThen (loadAndMinify P fs ''index.html'' (Some minifyHTML) st) (\<lambda>st.
     andThen (loadAndMinify P fs ''style.css'' (Some minifyCSS) st) (\<lambda>st.
     andThen (loadAndMinify P fs ''script.js'' (Some minifyJS) st) (\<lambda>st.
     andThen (loadStatic P fs [''favicon.webp'', ''profile.webp'', ''robots.txt'', ''sitemap.xml''] st)
       (\<lambda>st. (None, st\<lparr>files := (files st)(''__csp__'' \<mapsto> Policy (generateCSP st))\<rparr>)))))"

subsection \<open>The class variant, lines 32 to 62 and 215 to 295\<close>

text \<open>
  \<^verbatim>\<open>compress\<close>: both compressors under one \<^verbatim>\<open>Promise.all\<close> inside \<^verbatim>\<open>try\<close>; a
  compressor's error resolves to \<^verbatim>\<open>null\<close>, and when the call of
  \<^verbatim>\<open>zlib.brotliCompress\<close> throws, the \<^verbatim>\<open>catch\<close> leaves both variants out.
\<close>

definition AP_compress :: "platform \<Rightarrow> buffer \<Rightarrow> buffer option \<times> buffer option" where
  "AP_compress P buf =
     (case brotliCompress P 6 buf of
        Done b \<Rightarrow> (Some b, gzip P None buf)
      | Failed \<Rightarrow> (None, gzip P None buf)
      | Thrown \<Rightarrow> (None, None))"

definition AP_makeEntry ::
  "string \<Rightarrow> nat \<Rightarrow> buffer \<Rightarrow> buffer option \<times> buffer option \<Rightarrow> entry" where
  "AP_makeEntry relPath mtime processedContent compressed =
     \<lparr>path = publicPath relPath,
      mtimeMs = mtime,
      type = contentTypeFor relPath,
      cache = cacheControlFor relPath,
      body = processedContent,
      etag_of = etag processedContent,
      br = fst compressed,
      brEtag = (case fst compressed of Some b \<Rightarrow> Some (etag b) | None \<Rightarrow> None),
      gz = snd compressed,
      gzEtag = (case snd compressed of Some g \<Rightarrow> Some (etag g) | None \<Rightarrow> None)\<rparr>"

text \<open>
  The two inlining steps of \<^verbatim>\<open>processFile\<close>: the stylesheet link and the script
  reference are replaced by the minified sources, when the source file exists.  Reading
  it can reject.  The replacement is a text, so its \<^verbatim>\<open>$\<close> patterns are expanded.
\<close>

definition inlineCSS :: "platform \<Rightarrow> fs \<Rightarrow> string \<Rightarrow> error + string" where
  "inlineCSS P fs htmlContent =
     (if existsSync fs ''style.css''
      then (case readFile fs ''style.css'' of
              Inl e \<Rightarrow> Inl e
            | Inr b \<Rightarrow>
                Inr (replace_g (seqs [stri ''<link'', Star (noneOf ''>''), stri ''href='', quote,
                                      stri ''style.css'', quote, Star (noneOf ''>''), chr CHR ''>''])
                       (''<style>'' @ AP_minifyCSS (utf8_decode P b) @ ''</style>'') htmlContent))
      else Inr htmlContent)"

definition inlineJS :: "platform \<Rightarrow> fs \<Rightarrow> string \<Rightarrow> error + string" where
  "inlineJS P fs htmlContent =
     (if existsSync fs ''script.js''
      then (case readFile fs ''script.js'' of
              Inl e \<Rightarrow> Inl e
            | Inr b \<Rightarrow>
                Inr (replace_g (seqs [stri ''<script'', Star (noneOf ''>''), stri ''src='', quote,
                                      stri ''script.js'', quote, Star (noneOf ''>''), chr CHR ''>'',
                                      stri ''</script>''])
                       (''<script>'' @ AP_minifyJS (utf8_decode P b) @ ''</script>'') htmlContent))
      else Inr htmlContent)"

definition AP_processFile ::
  "platform \<Rightarrow> fs \<Rightarrow> string \<Rightarrow> (string \<Rightarrow> string) option \<Rightarrow> server \<Rightarrow> error + entry \<times> server" where
  "AP_processFile P fs relPath minifier st =
     (case readFile fs relPath of
        Inl e \<Rightarrow> Inl e
      | Inr content \<Rightarrow>
     (case stat fs relPath of
        Inl e \<Rightarrow> Inl e
      | Inr mtime \<Rightarrow>
          if relPath = ''index.html'' then
            (case inlineCSS P fs (utf8_decode P content) of
               Inl e \<Rightarrow> Inl e
             | Inr html1 \<Rightarrow>
            (case inlineJS P fs html1 of
               Inl e \<Rightarrow> Inl e
             | Inr html2 \<Rightarrow>
                 (let htmlContent = (case minifier of Some f \<Rightarrow> f html2 | None \<Rightarrow> html2);
                      st1 = AP_extractCSPHashes P htmlContent st;
                      processedContent = utf8_encode P htmlContent
                  in Inr (AP_makeEntry relPath mtime processedContent
                            (AP_compress P processedContent), st1))))
          else
            (let processedContent =
                   (case minifier of
                      Some f \<Rightarrow> utf8_encode P (f (utf8_decode P content))
                    | None \<Rightarrow> content)
             in Inr (AP_makeEntry relPath mtime processedContent
                       (AP_compress P processedContent), st))))"

text \<open>
  \<^verbatim>\<open>build\<close> starts one task per manifest entry and waits with
  \<^verbatim>\<open>Promise.allSettled\<close>, which takes rejections in.  The tasks write to different keys
  of the table, and only the task of \<^verbatim>\<open>index.html\<close> writes the hash sets, so the state
  after the build does not depend on how the tasks interleave; they are run here in the
  order of the list.
\<close>

definition AP_task ::
  "platform \<Rightarrow> fs \<Rightarrow> string \<times> (string \<Rightarrow> string) option \<Rightarrow> server \<Rightarrow> server" where
  "AP_task P fs t st =
     (if existsSync fs (fst t)
      then (case AP_processFile P fs (fst t) (snd t) st of
              Inl e \<Rightarrow> st
            | Inr (e, st1) \<Rightarrow> st1\<lparr>files := (files st1)(path e \<mapsto> Entry e)\<rparr>)
      else st)"

definition AP_tasks :: "(string \<times> (string \<Rightarrow> string) option) list" where
  "AP_tasks =
     [(''index.html'', Some AP_minifyHTML),
      (''style.css'', Some AP_minifyCSS),
      (''script.js'', Some AP_minifyJS),
      (''favicon.webp'', None),
      (''profile.webp'', None),
      (''robots.txt'', None),
      (''sitemap.xml'', None)]"

definition AP_build :: "platform \<Rightarrow> fs \<Rightarrow> server \<Rightarrow> server" where
  "AP_build P fs st =
     (let st1 = foldl (\<lambda>s t. AP_task P fs t s) st AP_tasks
      in st1\<lparr>files := (files st1)(''__csp__'' \<mapsto> Policy (AP_generateCSP st1))\<rparr>)"

section \<open>Serving\<close>

text \<open>
  \<^verbatim>\<open>serveEntry\<close> with \<^verbatim>\<open>negotiateEncoding\<close> (server.js, lines 497 to 553);
  \<^verbatim>\<open>AssetProcessor.serveFile\<close> is the same function with the negotiation written in
  place.  A request is the two headers the code reads; a response is the status, the
  headers set and the bytes handed to \<^verbatim>\<open>res.end\<close>.
\<close>

record request =
  accept_encoding :: "string option"
  if_none_match :: "string option"

record response =
  statusCode :: nat
  headers :: "string \<rightharpoonup> string"
  sent :: buffer

definition response0 :: response where
  "response0 = \<lparr>statusCode = 200, headers = Map.empty, sent = []\<rparr>"

definition setHeader :: "string \<Rightarrow> string \<Rightarrow> response \<Rightarrow> response" where
  "setHeader name v res = res\<lparr>headers := (headers res)(name \<mapsto> v)\<rparr>"

definition setSecurityHeaders :: "server \<Rightarrow> response \<Rightarrow> response" where
  "setSecurityHeaders st res =
     (let res1 = chain res
            [setHeader ''X-Content-Type-Options'' ''nosniff'',
             setHeader ''X-Frame-Options'' ''DENY'',
             setHeader ''X-XSS-Protection'' ''1; mode=block'',
             setHeader ''Referrer-Policy'' ''strict-origin-when-cross-origin'',
             setHeader ''Strict-Transport-Security'' ''max-age=31536000; includeSubDomains; preload'',
             setHeader ''Permissions-Policy''
               ''geolocation=(), microphone=(), camera=(), payment=(), usb=(), magnetometer=(), gyroscope=(), speaker=()'']
      in case files st ''__csp__'' of
           Some (Policy cspPolicy) \<Rightarrow>
             if cspPolicy \<noteq> [] then setHeader ''Content-Security-Policy'' cspPolicy res1 else res1
         | _ \<Rightarrow> res1)"

definition negotiateEncoding :: "request \<Rightarrow> bool \<times> bool" where
  "negotiateEncoding req =
     (let ae = (case accept_encoding req of Some v \<Rightarrow> v | None \<Rightarrow> [])
      in (test (seqs [WordB, str ''br'', WordB]) ae, test (seqs [WordB, str ''gzip'', WordB]) ae))"

text \<open>
  The variant chosen for a request: its bytes, its tag and the \<^verbatim>\<open>Content-Encoding\<close>
  it is sent with (lines 531 to 543).
\<close>

definition negotiate :: "request \<Rightarrow> entry \<Rightarrow> buffer \<times> string option \<times> string option" where
  "negotiate req e =
     (let enc = negotiateEncoding req
      in case (fst enc, br e) of
           (True, Some b) \<Rightarrow> (b, brEtag e, Some ''br'')
         | _ \<Rightarrow>
           (case (snd enc, gz e) of
              (True, Some g) \<Rightarrow> (g, gzEtag e, Some ''gzip'')
            | _ \<Rightarrow> (body e, Some (etag_of e), None)))"

text \<open>
  \<^verbatim>\<open>res.setHeader("ETag", tag)\<close> throws on \<^verbatim>\<open>undefined\<close>.
\<close>

definition serveEntry :: "server \<Rightarrow> request \<Rightarrow> entry \<Rightarrow> error + response" where
  "serveEntry st req e =
     (let res1 = chain (setSecurityHeaders st response0)
            [setHeader ''Content-Type'' (type e),
             setHeader ''Cache-Control'' (cache e),
             setHeader ''Vary'' ''Accept-Encoding''];
          chosen = negotiate req e;
          res2 = (case snd (snd chosen) of
                    Some encoding \<Rightarrow> setHeader ''Content-Encoding'' encoding res1
                  | None \<Rightarrow> res1)
      in case fst (snd chosen) of
           None \<Rightarrow> Inl (InvalidHeaderValue ''ETag'')
         | Some tag \<Rightarrow>
             (let res3 = setHeader ''ETag'' tag res2
              in if if_none_match req = Some tag
                 then Inr (res3\<lparr>statusCode := 304, sent := []\<rparr>)
                 else Inr (res3\<lparr>statusCode := 200, sent := fst chosen\<rparr>)))"

section \<open>A platform and files to run the build on\<close>

text \<open>
  On bytes below 128, UTF-8 coding is the identity on code units.  \<open>demoPlatform H\<close> codes
  that way, takes \<open>H\<close> for the digest, and has two stand-in compressors that put one byte
  in front of their input; \<open>barePlatform H\<close> has compressors that fail.
\<close>

definition asciiBytes :: "string \<Rightarrow> buffer" where
  "asciiBytes s = map (\<lambda>c. of_nat (code c)) s"

definition asciiText :: "buffer \<Rightarrow> string" where
  "asciiText b = map (\<lambda>x. char_of (unat x)) b"

definition demoPlatform :: "(string \<Rightarrow> string) \<Rightarrow> platform" where
  "demoPlatform H =
     \<lparr>sha256_base64 = H, utf8_decode = asciiText, utf8_encode = asciiBytes,
      brotliCompress = (\<lambda>quality buf. Done (0 # buf)),
      gzip = (\<lambda>memLevel buf. Some (1 # buf))\<rparr>"

definition barePlatform :: "(string \<Rightarrow> string) \<Rightarrow> platform" where
  "barePlatform H =
     \<lparr>sha256_base64 = H, utf8_decode = asciiText, utf8_encode = asciiBytes,
      brotliCompress = (\<lambda>quality buf. Failed),
      gzip = (\<lambda>memLevel buf. None)\<rparr>"

definition textFile :: "string \<Rightarrow> fsNode" where
  "textFile s = File (asciiBytes s) 0"

text \<open>What the table holds for a path: the bytes of the canonical body.\<close>

definition tableBody :: "server \<Rightarrow> string \<Rightarrow> buffer option" where
  "tableBody st k = (case files st k of Some (Entry e) \<Rightarrow> Some (body e) | _ \<Rightarrow> None)"

text \<open>
  Four working directories: one whose page has an inline script, one without
  \<^verbatim>\<open>style.css\<close>, one whose \<^verbatim>\<open>style.css\<close> is there and cannot be read, and one with
  the three sources and one static asset.
\<close>

definition fsInlineScript :: fs where
  "fsInlineScript =
     [''index.html'' \<mapsto> textFile ''<script>x = 1</script>'',
      ''style.css'' \<mapsto> textFile ''b'',
      ''script.js'' \<mapsto> textFile ''c'']"

definition fsNoStylesheet :: fs where
  "fsNoStylesheet =
     [''index.html'' \<mapsto> textFile ''a'',
      ''script.js'' \<mapsto> textFile ''c'',
      ''robots.txt'' \<mapsto> textFile ''d'']"

definition fsUnreadableStylesheet :: fs where
  "fsUnreadableStylesheet =
     [''index.html'' \<mapsto> textFile ''a'',
      ''style.css'' \<mapsto> Unreadable 0,
      ''robots.txt'' \<mapsto> textFile ''d'']"

definition fsSmall :: fs where
  "fsSmall =
     [''index.html'' \<mapsto> textFile ''a'',
      ''style.css'' \<mapsto> textFile ''b'',
      ''script.js'' \<mapsto> textFile ''c'',
      ''robots.txt'' \<mapsto> textFile ''d'']"

text \<open>The entry that both builds make of \<^verbatim>\<open>robots.txt\<close> in the last directory.\<close>

definition robotsEntry :: entry where
  "robotsEntry =
     makeEntry ''robots.txt'' 0 (asciiBytes ''d'')
       (Some (0 # asciiBytes ''d''), Some (1 # asciiBytes ''d''))"

definition AP_robotsEntry :: entry where
  "AP_robotsEntry =
     AP_makeEntry ''robots.txt'' 0 (asciiBytes ''d'')
       (Some (0 # asciiBytes ''d''), Some (1 # asciiBytes ''d''))"

section \<open>Tag and body coherence\<close>

text \<open>
  An entry is coherent when each of its three tags is the tag of the bytes of its own
  variant.  A table is coherent when every entry in it is.
\<close>

definition coherent :: "entry \<Rightarrow> bool" where
  "coherent e =
     (etag_of e = etag (body e)
      \<and> brEtag e = map_option etag (br e)
      \<and> gzEtag e = map_option etag (gz e))"

definition tableCoherent :: "server \<Rightarrow> bool" where
  "tableCoherent st = (\<forall>k e. files st k = Some (Entry e) \<longrightarrow> coherent e)"

section \<open>The whitespace pass on inputs without literals\<close>

text \<open>
  The two character classes tested by the second loop of \<^verbatim>\<open>minifyJS\<close>, as predicates on
  one character: \<^verbatim>\<open>/[a-zA-Z0-9_$]/\<close> and \<^verbatim>\<open>/[=;:,{}()<>+\-*\/\?|&!]/\<close>
  (lemmas \<open>test_identChar_single\<close> and \<open>test_operatorChar\<close> relate them to the
  regular expressions of the model).
\<close>

definition isIdent :: "char \<Rightarrow> bool" where
  "isIdent c = (inRange CHR ''a'' CHR ''z'' c \<or> inRange CHR ''A'' CHR ''Z'' c
                \<or> inRange CHR ''0'' CHR ''9'' c \<or> c = CHR ''_'' \<or> c = CHR ''$'')"

definition isOperator :: "char \<Rightarrow> bool" where
  "isOperator c = (c \<in> set ''=;:,{}()<>+-*/?|&!'')"

text \<open>
  \<^verbatim>\<open>/[a-zA-Z0-9_$]/.test(c)\<close> where \<open>c\<close> may be \<^verbatim>\<open>undefined\<close> (the text
  \<^verbatim>\<open>undefined\<close> passes the test), and the last and first characters of a string.
\<close>

fun identOpt :: "char option \<Rightarrow> bool" where
  "identOpt None = True"
| "identOpt (Some c) = isIdent c"

definition lastOpt :: "string \<Rightarrow> char option" where
  "lastOpt a = (if a = [] then None else Some (last a))"

definition hdOpt :: "string \<Rightarrow> char option" where
  "hdOpt r = (case r of [] \<Rightarrow> None | c # cs \<Rightarrow> Some c)"

text \<open>
  The second loop of \<^verbatim>\<open>minifyJS\<close> (lines 269 to 325) outside string and template
  literals, as a recursion on the remaining input: a run of whitespace becomes one space
  when the output so far and the rest both border it with an identifier character (or
  with nothing at all), and nothing otherwise; an operator character removes a space
  before it.  Lemma \<open>pass2_plain\<close> shows that \<open>pass2\<close> computes this function on every
  input without a quote character.
\<close>

function scanWs :: "string \<Rightarrow> string \<Rightarrow> string" where
  "scanWs a [] = a"
| "scanWs a (c # cs) =
     (if isSpace c
      then scanWs (if identOpt (lastOpt a) \<and> identOpt (hdOpt (dropWhile isSpace cs))
                   then a @ '' '' else a)
             (dropWhile isSpace cs)
      else scanWs ((if isOperator c \<and> endsWith a '' '' then butlast a else a) @ [c]) cs)"
  by pat_completeness auto
termination
  by (relation "measure (\<lambda>(a, s). length s)")
     (auto simp: less_Suc_eq_le length_dropWhile_le)

text \<open>
  The shape of the output of \<open>scanWs\<close>: the only whitespace is the single space, and a
  space stands between two identifier characters (\<open>p\<close> is the character before the
  string).
\<close>

fun nf :: "char option \<Rightarrow> string \<Rightarrow> bool" where
  "nf p [] = True"
| "nf p (c # cs) =
     (if c = CHR '' '' then identOpt p \<and> identOpt (hdOpt cs) \<and> nf (Some c) cs
      else \<not> isSpace c \<and> nf (Some c) cs)"

text \<open>
  Inputs on which neither the literal scanner, nor the comment scanner, nor the final
  replacements of \<^verbatim>\<open>minifyJS\<close> can fire: no quote, backtick, slash, semicolon or equals
  sign.
\<close>

definition plain :: "string \<Rightarrow> bool" where
  "plain x = (set x \<inter> set [CHR 0x22, CHR 0x27, CHR 0x60, CHR ''/'', CHR '';'', CHR ''=''] = {})"

section \<open>Accepting an encoding\<close>

text \<open>
  The value of the request's \<^verbatim>\<open>Accept-Encoding\<close> header that the code reads:
  \<^verbatim>\<open>req.headers["accept-encoding"] || ""\<close>.
\<close>

definition acceptEncoding :: "request \<Rightarrow> string" where
  "acceptEncoding req = (case accept_encoding req of Some v \<Rightarrow> v | None \<Rightarrow> [])"

text \<open>
  A word occurs in a text \<^emph>\<open>as a whole word\<close> when it stands there with no word character
  (letter, digit or underscore) right before it and none right after it.  \<open>wordAt w p xs\<close>:
  the word \<open>w\<close> stands at the front of \<open>xs\<close>, where \<open>p\<close> is the character before \<open>xs\<close>.
  This is written from the meaning of the words, without the regular expressions of the
  code.
\<close>

definition wordOpt :: "char option \<Rightarrow> bool" where
  "wordOpt p = (case p of None \<Rightarrow> False | Some c \<Rightarrow> isWordChar c)"

definition wordAt :: "string \<Rightarrow> char option \<Rightarrow> string \<Rightarrow> bool" where
  "wordAt w p xs =
     (\<not> wordOpt p \<and> take (length w) xs = w
      \<and> (case drop (length w) xs of [] \<Rightarrow> True | c # cs \<Rightarrow> \<not> isWordChar c))"

fun occursAsWord :: "string \<Rightarrow> char option \<Rightarrow> string \<Rightarrow> bool" where
  "occursAsWord w p [] = wordAt w p []"
| "occursAsWord w p (x # xs) = (wordAt w p (x # xs) \<or> occursAsWord w (Some x) xs)"

definition wholeWord :: "string \<Rightarrow> string \<Rightarrow> bool" where
  "wholeWord w s = occursAsWord w None s"

text \<open>
  What a request accepts, as HTTP defines it (RFC 9110, section 12.5.3): the header is a
  comma-separated list of codings, each with an optional weight \<^verbatim>\<open>;q=\<close>; a coding that is
  listed is acceptable unless its weight is zero, and \<^verbatim>\<open>*\<close> stands for every coding that
  is not listed.  Coding names are case-insensitive.
\<close>

fun splitOn :: "char \<Rightarrow> string \<Rightarrow> string list" where
  "splitOn d [] = [[]]"
| "splitOn d (c # cs) =
     (if c = d then [] # splitOn d cs
      else (case splitOn d cs of [] \<Rightarrow> [[c]] | part # parts \<Rightarrow> (c # part) # parts))"

definition ows :: "char \<Rightarrow> bool" where
  "ows c = (c = CHR '' '' \<or> c = CHR 0x09)"

definition strip :: "string \<Rightarrow> string" where
  "strip s = rev (dropWhile ows (rev (dropWhile ows s)))"

definition asciiLower :: "char \<Rightarrow> char" where
  "asciiLower c = (if inRange CHR ''A'' CHR ''Z'' c then char_of (code c + 32) else c)"

definition codingOf :: "string \<Rightarrow> string" where
  "codingOf element = map asciiLower (strip (hd (splitOn CHR '';'' element)))"

definition zeroWeight :: "string \<Rightarrow> bool" where
  "zeroWeight element =
     list_ex (\<lambda>parameter.
                map asciiLower (take 2 (strip parameter)) = ''q=''
                \<and> list_ex (\<lambda>zero. drop 2 (strip parameter) = zero)
                     [''0'', ''0.'', ''0.0'', ''0.00'', ''0.000''])
       (tl (splitOn CHR '';'' element))"

definition httpAccepts :: "string \<Rightarrow> string \<Rightarrow> bool" where
  "httpAccepts coding header =
     (let elements = splitOn CHR '','' header
      in if list_ex (\<lambda>element. codingOf element = coding) elements
         then list_ex (\<lambda>element. codingOf element = coding \<and> \<not> zeroWeight element) elements
         else list_ex (\<lambda>element. codingOf element = ''*'' \<and> \<not> zeroWeight element) elements)"

section \<open>Running the embedding\<close>

text \<open>
  The definitions are run on concrete inputs by rewriting.  The congruence rules keep the
  simplifier out of callbacks and of the bodies of \<open>let\<close> until their arguments are known.
\<close>

lemma char_of_bits:
  "char_of (n::nat) = Char (odd n) (odd (n div 2)) (odd (n div 4)) (odd (n div 8))
                          (odd (n div 16)) (odd (n div 32)) (odd (n div 64)) (odd (n div 128))"
  by (simp add: char_of_def bit_iff_odd)

lemma replaceAll_cong: "xs = ys \<Longrightarrow> replaceAll r f i p xs = replaceAll r f i p ys"
  by simp

lemma matchAll_cong: "xs = ys \<Longrightarrow> matchAll r i p xs = matchAll r i p ys"
  by simp

lemmas re_defs = char_of_bits str_def stri_def seqs_def Plus_def LazyPlus_def Opt_def chr_def
  oneOf_def noneOf_def sp_def anyChar_def group_def chain_def replace_fn_def replace_g_def
  match_g_def test_def replaceAll.simps matchAll.simps hexDigit_def digits_def newline_def
  quote_def isSpace_def isDigit_def isWordChar_def isLineTerminator_def inRange_def code_def
  toUpper_def trim_def digitVal_def Let_def

lemmas js_defs = minifyJS_def pass1.simps pass2.simps step1_def step2_def scan0_def
  inString_def inTemplateLiteral_def openString_def openTemplate_def charAt_def
  skipBlockComment.simps skipLineComment.simps skipSpaces.simps String_def identChar_def
  identCharOrQuote_def operatorChar_def endsWith_def

lemmas css_defs = minifyCSS_def toHex_def rgbToHex_def calcCompact_def unquoteIdent_def
  mergeRules_def boxShorthand_def radiusShorthand_def scaleCompact_def linearGradient_def
  radialGradient_def padStart_def parseInt_def numberToString.simps digitChar_def

lemmas html_defs = minifyHTML_def minifyStyleBlock_def unquoteAttr_def replaceFirst_def

lemmas csp_defs = extractInlineContent_def inlineScript_def inlineStyle_def scriptContent_def
  styleContent_def addHash_def setAdd_def calculateHash_def quoted_def generateCSP_def
  scriptSrc_def styleSrc_def

lemma files_extractInlineContent [simp]: "files (extractInlineContent P html st) = files st"
  by (simp add: extractInlineContent_def Let_def)

lemma files_AP_extractCSPHashes [simp]: "files (AP_extractCSPHashes P html st) = files st"
  by (simp add: AP_extractCSPHashes_def)

lemma publicPath_manifest:
  "publicPath ''index.html'' = ''/index.html''"
  "publicPath ''style.css'' = ''/style.css''"
  "publicPath ''script.js'' = ''/script.js''"
  "publicPath ''favicon.webp'' = ''/favicon.webp''"
  "publicPath ''profile.webp'' = ''/profile.webp''"
  "publicPath ''robots.txt'' = ''/robots.txt''"
  "publicPath ''sitemap.xml'' = ''/sitemap.xml''"
  by (simp_all add: publicPath_def re_defs cong: replaceAll_cong)

lemmas run_defs = build_def andThen_def loadAndMinify_def readFile_def stat_def existsSync_def
  textFile_def server0_def Let_def publicPath_manifest

lemma char_of_byte: "char_of (unat (of_nat (code c) :: 8 word)) = c"
  by (simp add: unat_of_nat code_def)

lemma asciiText_asciiBytes [simp]: "asciiText (asciiBytes s) = s"
  by (induction s) (simp_all add: asciiText_def asciiBytes_def char_of_byte)

section \<open>Properties of the validation tag\<close>

lemma etag_loop_fold:
  "etag_loop buf i h = fold (\<lambda>b h. (h XOR ucast b) * 0x01000193) (drop i buf) h"
proof (induction buf i h rule: etag_loop.induct)
  case (1 buf i h)
  show ?case
  proof (cases "i < length buf")
    case True
    then have d: "drop i buf = buf ! i # drop (Suc i) buf"
      by (simp add: Cons_nth_drop_Suc)
    from True 1 show ?thesis
      by (subst etag_loop.simps) (simp add: d Math_imul_def)
  next
    case False
    then show ?thesis by (subst etag_loop.simps) simp
  qed
qed

lemma etag_loop_fnv1a: "etag_loop buf 0 2166136261 = fnv1a buf"
  by (simp add: etag_loop_fold fnv1a_def)

lemma digitChar_zero_iff: "d < 16 \<Longrightarrow> digitChar d = CHR ''0'' \<longleftrightarrow> d = 0"
  unfolding digitChar_def by (auto simp: less_Suc_eq numeral_eq_Suc)

lemma padHex_zero: "padHex k 0 = replicate k (CHR ''0'')"
  by (induction k) (simp_all add: digitChar_def replicate_append_same)

lemma padHex_length: "length (padHex k n) = k"
  by (induction k arbitrary: n) simp_all

lemma padHex_nonzero:
  "0 < n \<Longrightarrow> n < 16 ^ k \<Longrightarrow> dropWhile (\<lambda>c. c = CHR ''0'') (padHex k n) \<noteq> []"
proof (induction k arbitrary: n)
  case 0
  then show ?case by simp
next
  case (Suc k)
  show ?case
  proof (cases "n < 16")
    case True
    with Suc.prems have "digitChar (n mod 16) \<noteq> CHR ''0''"
      by (simp add: digitChar_zero_iff)
    then show ?thesis by (simp add: dropWhile_append)
  next
    case False
    then have "0 < n div 16" by simp
    moreover from Suc.prems have "n div 16 < 16 ^ k"
      by (simp add: less_mult_imp_div_less mult.commute)
    ultimately have "dropWhile (\<lambda>c. c = CHR ''0'') (padHex k (n div 16)) \<noteq> []"
      by (rule Suc.IH)
    then show ?thesis by (auto simp: dropWhile_append)
  qed
qed

lemma numberToString_hex:
  "n < 16 ^ k \<Longrightarrow> 0 < k \<Longrightarrow> numberToString 16 n = stripLeadingZeros (padHex k n)"
proof (induction k arbitrary: n)
  case 0
  then show ?case by simp
next
  case (Suc k)
  show ?case
  proof (cases "n < 16")
    case True
    then have "numberToString 16 n = [digitChar n]"
      by (subst numberToString.simps) simp
    moreover from True have "padHex (Suc k) n = replicate k (CHR ''0'') @ [digitChar n]"
      by (simp add: padHex_zero)
    moreover have "stripLeadingZeros (replicate k (CHR ''0'') @ [digitChar n]) = [digitChar n]"
      using True by (cases "n = 0") (auto simp: stripLeadingZeros_def dropWhile_append digitChar_zero_iff digitChar_def)
    ultimately show ?thesis by simp
  next
    case False
    then have pos: "0 < n div 16" by simp
    from Suc.prems have lt: "n div 16 < 16 ^ k"
      by (simp add: less_mult_imp_div_less mult.commute)
    with pos have k: "0 < k" by (cases k) auto
    have ih: "numberToString 16 (n div 16) = stripLeadingZeros (padHex k (n div 16))"
      using lt k by (rule Suc.IH)
    have nz: "dropWhile (\<lambda>c. c = CHR ''0'') (padHex k (n div 16)) \<noteq> []"
      using pos lt by (rule padHex_nonzero)
    from False have "numberToString 16 n = numberToString 16 (n div 16) @ [digitChar (n mod 16)]"
      by (subst numberToString.simps) simp
    also have "\<dots> = stripLeadingZeros (padHex (Suc k) n)"
      using nz by (auto simp: ih stripLeadingZeros_def dropWhile_append split: list.splits)
    finally show ?thesis .
  qed
qed


lemma padHex_map:
  "padHex k n = map (\<lambda>j. digitChar (n div 16 ^ j mod 16)) (rev [0..<k])"
proof (induction k arbitrary: n)
  case 0
  then show ?case by simp
next
  case (Suc k)
  have "[0..<Suc k] = 0 # map Suc [0..<k]"
    by (simp add: upt_conv_Cons map_Suc_upt del: upt_Suc)
  then have "map (\<lambda>j. digitChar (n div 16 ^ j mod 16)) (rev [0..<Suc k]) =
      map (\<lambda>j. digitChar (n div 16 div 16 ^ j mod 16)) (rev [0..<k]) @ [digitChar (n mod 16)]"
    by (simp add: rev_map comp_def div_mult2_eq del: upt_Suc)
  then show ?case
    by (simp add: Suc.IH del: upt_Suc)
qed

lemma hex8_padHex: "hex8 w = padHex 8 (unat w)"
proof -
  have "rev [0..<8] = [7, 6, 5, 4, 3, 2, 1, 0::nat]"
    by (simp add: upt_rec)
  then show ?thesis by (simp only: hex8_def padHex_map)
qed

text \<open>
  Claim C6, as amended.  For every byte buffer \<open>b\<close>, \<open>etag b\<close> is the string
  \<^verbatim>\<open>W/"h-n"\<close> where \<open>h\<close> is the FNV-1a 32-bit checksum of \<open>b\<close> (seed 0x811c9dc5,
  XOR with each byte, then multiplication by 0x01000193, in unsigned 32-bit arithmetic)
  written in lowercase hexadecimal \<^emph>\<open>without leading zeros\<close> (the eight-digit rendering
  with its leading zeros stripped, one digit at least), and \<open>n\<close> is the decimal byte
  length of \<open>b\<close>.
\<close>

theorem etag_format:
  "etag b = ''W/\"'' @ stripLeadingZeros (hex8 (fnv1a b)) @ ''-''
              @ numberToString 10 (length b) @ ''\"''"
proof -
  have "unat (fnv1a b) < 2 ^ 32"
    using unsigned_less [of "fnv1a b", where 'a = nat] by simp
  then have "unat (fnv1a b) < 16 ^ 8" by simp
  then have "numberToString 16 (unat (fnv1a b)) = stripLeadingZeros (padHex 8 (unat (fnv1a b)))"
    by (rule numberToString_hex) simp
  then show ?thesis
    by (simp add: etag_def etag_loop_fnv1a hex8_padHex)
qed

lemma etag_and: "etag [0x61, 0x6e, 0x64] = ''W/\"f29c2a6-3\"''"
  by (simp add: etag_def Math_imul_def digitChar_def etag_loop.simps numberToString.simps)

lemma etag_claimed_and: "etag_claimed [0x61, 0x6e, 0x64] = ''W/\"0f29c2a6-3\"''"
  by (simp add: etag_claimed_def hex8_def fnv1a_def digitChar_def numberToString.simps)

text \<open>
  Claim C6 as stated fails: the checksum is not padded to eight hexadecimal digits.
  For the three bytes of \<^verbatim>\<open>and\<close> the checksum is 0x0f29c2a6 and the tag carries seven
  digits.
\<close>

theorem etag_eight_digits_counterexample:
  "etag [0x61, 0x6e, 0x64] \<noteq> etag_claimed [0x61, 0x6e, 0x64]"
  by (simp add: etag_and etag_claimed_and)


section \<open>The policy: fallback sources\<close>

text \<open>
  The class variant: the script source list is \<^verbatim>\<open>'self'\<close> followed by one token per
  collected digest and nothing else; the style source list is the same, except that an empty
  set of digests gives \<^verbatim>\<open>'self' 'unsafe-inline'\<close>.
\<close>

lemma join_Cons: "ys \<noteq> [] \<Longrightarrow> join sep (x # ys) = x @ sep @ join sep ys"
  by (cases ys) simp_all

lemma AP_scriptSrc_tokens:
  "AP_scriptSrc st = join '' '' (quoted ''self'' # map (\<lambda>h. quoted (''sha256-'' @ h)) (scripts st))"
  by (cases "scripts st") (simp_all add: AP_scriptSrc_def Let_def join_Cons)

lemma AP_styleSrc_tokens:
  "AP_styleSrc st =
     join '' '' (quoted ''self'' #
       (if styles st = [] then [quoted ''unsafe-inline'']
        else map (\<lambda>h. quoted (''sha256-'' @ h)) (styles st)))"
  by (cases "styles st") (simp_all add: AP_styleSrc_def Let_def join_Cons)

lemma AP_generateCSP_no_hashes:
  "AP_generateCSP (st\<lparr>scripts := [], styles := []\<rparr>) =
     ''default-src 'self'; script-src 'self'; script-src-elem 'self'; style-src 'self' 'unsafe-inline'; style-src-elem 'self' 'unsafe-inline'; img-src 'self' https: data:; font-src 'self'; connect-src 'self'; media-src 'self' data:; object-src 'none'; child-src 'none'; worker-src 'none'; frame-ancestors 'none'; form-action 'self'; base-uri 'self'; manifest-src 'self'; upgrade-insecure-requests''"
  by (simp add: AP_generateCSP_def AP_scriptSrc_def AP_styleSrc_def quoted_def)

text \<open>
  Claim C3 at a failing input.  \<^verbatim>\<open>generateCSP\<close> of server.js, run with no inline script
  and no inline style collected, gives \<^verbatim>\<open>script-src 'self' 'unsafe-inline'\<close>: the script
  directive gets the same fallback as the style directive.
\<close>

theorem generateCSP_script_fallback:
  "generateCSP (st\<lparr>scripts := [], styles := []\<rparr>) =
     ''default-src 'self'; script-src 'self' 'unsafe-inline'; style-src 'self' 'unsafe-inline'; img-src 'self' data: https:; font-src 'self'; connect-src 'self'; media-src 'self'; object-src 'none'; child-src 'none'; worker-src 'none'; frame-ancestors 'none'; form-action 'self'; base-uri 'self'; manifest-src '' @ quoted ''self''"
  by (simp add: generateCSP_def scriptSrc_def styleSrc_def quoted_def)

section \<open>The JavaScript minifier\<close>

subsection \<open>Termination\<close>

lemma pass1_iterates:
  "\<exists>k. k \<le> length src - idx s \<and> pass1 src s = (step1 src ^^ k) s"
proof (induction src s rule: pass1.induct)
  case (1 src s)
  show ?case
  proof (cases "idx s < length src")
    case True
    from 1 [OF True] obtain k where
      k: "k \<le> length src - idx (step1 src s)"
         "pass1 src (step1 src s) = (step1 src ^^ k) (step1 src s)"
      by blast
    have "idx s < idx (step1 src s)" by (rule step1_advances)
    with True k(1) have "Suc k \<le> length src - idx s" by simp
    moreover have "pass1 src s = (step1 src ^^ Suc k) s"
      using True k(2) by (subst pass1.simps) (simp add: funpow_swap1)
    ultimately show ?thesis by blast
  next
    case False
    then have "pass1 src s = (step1 src ^^ 0) s" by (subst pass1.simps) simp
    then show ?thesis by blast
  qed
qed

lemma pass2_iterates:
  "\<exists>k. k \<le> length out - idx s \<and> pass2 out s = (step2 out ^^ k) s"
proof (induction out s rule: pass2.induct)
  case (1 out s)
  show ?case
  proof (cases "idx s < length out")
    case True
    from 1 [OF True] obtain k where
      k: "k \<le> length out - idx (step2 out s)"
         "pass2 out (step2 out s) = (step2 out ^^ k) (step2 out s)"
      by blast
    have "idx s < idx (step2 out s)" by (rule step2_advances)
    with True k(1) have "Suc k \<le> length out - idx s" by simp
    moreover have "pass2 out s = (step2 out ^^ Suc k) s"
      using True k(2) by (subst pass2.simps) (simp add: funpow_swap1)
    ultimately show ?thesis by blast
  next
    case False
    then have "pass2 out s = (step2 out ^^ 0) s" by (subst pass2.simps) simp
    then show ?thesis by blast
  qed
qed

lemma minifyJS_unterminated:
  "minifyJS ''a = \"b c'' = ''a=\"b c''"
  "minifyJS ''a = `b c'' = ''a=`b c''"
  "minifyJS ''a /* b c'' = ''a''"
  "minifyJS ''a // b c'' = ''a''"
  by (simp_all add: re_defs js_defs cong: let_weak_cong replaceAll_cong)

text \<open>
  Claim C10.  Every iteration of the first pass and of the second pass moves the index
  forward, in whatever state it starts (inside a string, a template, or neither), and the
  inner loops that skip a comment or a run of white space never move it back.  So each
  pass is its step function run at most as many times as its input has characters:
  \<^verbatim>\<open>minifyJS\<close> returns on every input, also on one that ends inside a string, a template
  or a comment.
\<close>

theorem minifyJS_terminates:
  "idx s < idx (step1 src s) \<and> idx s < idx (step2 out s)
   \<and> i \<le> skipBlockComment src i \<and> i \<le> skipLineComment src i \<and> i \<le> skipSpaces out i
   \<and> (\<exists>k. k \<le> length src \<and> pass1 src scan0 = (step1 src ^^ k) scan0)
   \<and> (\<exists>k. k \<le> length out \<and> pass2 out scan0 = (step2 out ^^ k) scan0)"
proof -
  have "\<exists>k. k \<le> length src \<and> pass1 src scan0 = (step1 src ^^ k) scan0"
    using pass1_iterates [of src scan0] by (simp add: scan0_def)
  moreover have "\<exists>k. k \<le> length out \<and> pass2 out scan0 = (step2 out ^^ k) scan0"
    using pass2_iterates [of out scan0] by (simp add: scan0_def)
  ultimately show ?thesis
    using step1_advances step2_advances skipBlockComment_ge skipLineComment_ge skipSpaces_ge
    by blast
qed

subsection \<open>String literals\<close>

lemma minifyJS_spec_example: "minifyJS ''const s = \"a  +  b\";'' = ''const s=\"a  +  b\";''"
  by (simp add: re_defs js_defs cong: let_weak_cong replaceAll_cong)

text \<open>
  Claim C2 at a failing input.  The two scanning passes copy a string literal as it is, but
  the replacements that follow them run over the whole text: the comparison inside the
  literal \<^verbatim>\<open>"a===true"\<close> is dropped, and the literal becomes \<^verbatim>\<open>"a"\<close>.
\<close>

theorem minifyJS_rewrites_inside_string:
  "minifyJS ''x = \"a===true\";'' = ''x=\"a\";''"
  by (simp add: re_defs js_defs cong: let_weak_cong replaceAll_cong)

section \<open>Entries of the table\<close>

lemma makeEntry_coherent: "coherent (makeEntry relPath mtime content compressed)"
  by (simp add: coherent_def makeEntry_def split: option.splits)

lemma AP_makeEntry_coherent: "coherent (AP_makeEntry relPath mtime content compressed)"
  by (simp add: coherent_def AP_makeEntry_def split: option.splits)

lemma tableCoherent_server0: "tableCoherent server0"
  by (simp add: tableCoherent_def server0_def)

lemma tableCoherent_extract [simp]:
  "tableCoherent (extractInlineContent P html st) = tableCoherent st"
  by (simp add: tableCoherent_def)

lemma tableCoherent_AP_extract [simp]:
  "tableCoherent (AP_extractCSPHashes P html st) = tableCoherent st"
  by (simp add: tableCoherent_def)

lemma tableCoherent_store:
  "tableCoherent st \<Longrightarrow> coherent e \<Longrightarrow> tableCoherent (st\<lparr>files := (files st)(k \<mapsto> Entry e)\<rparr>)"
  by (simp add: tableCoherent_def)

lemma tableCoherent_policy:
  "tableCoherent st \<Longrightarrow> tableCoherent (st\<lparr>files := (files st)(k \<mapsto> Policy p)\<rparr>)"
  by (simp add: tableCoherent_def)

lemma loadAndMinify_coherent:
  "tableCoherent st \<Longrightarrow> tableCoherent (snd (loadAndMinify P fs relPath minify st))"
  by (auto simp: loadAndMinify_def Let_def tableCoherent_def makeEntry_coherent
      split: sum.splits)

lemma andThen_coherent:
  assumes "tableCoherent (snd r)"
    and "\<And>st. tableCoherent st \<Longrightarrow> tableCoherent (snd (f st))"
  shows "tableCoherent (snd (andThen r f))"
  using assms by (cases r) (auto simp: andThen_def split: option.splits)

lemma loadStatic_coherent:
  "tableCoherent st \<Longrightarrow> tableCoherent (snd (loadStatic P fs names st))"
proof (induction names arbitrary: st)
  case Nil
  then show ?case by simp
next
  case (Cons f rest)
  then show ?case
    by (auto intro!: andThen_coherent loadAndMinify_coherent)
qed

lemma build_coherent: "tableCoherent st \<Longrightarrow> tableCoherent (snd (build P fs st))"
  unfolding build_def
  by (intro andThen_coherent loadAndMinify_coherent loadStatic_coherent)
     (simp_all add: tableCoherent_policy)

lemma AP_processFile_coherent:
  "AP_processFile P fs relPath minifier st = Inr (e, st1) \<Longrightarrow> tableCoherent st \<Longrightarrow>
   coherent e \<and> tableCoherent st1"
  by (auto simp: AP_processFile_def Let_def tableCoherent_def AP_makeEntry_coherent
      split: sum.splits if_splits)

lemma AP_task_coherent: "tableCoherent st \<Longrightarrow> tableCoherent (AP_task P fs t st)"
  by (auto simp: AP_task_def tableCoherent_def split: sum.splits
      dest!: AP_processFile_coherent [unfolded tableCoherent_def])

lemma AP_tasks_coherent:
  "tableCoherent st \<Longrightarrow> tableCoherent (foldl (\<lambda>s t. AP_task P fs t s) st ts)"
  by (induction ts arbitrary: st) (simp_all add: AP_task_coherent)

lemma AP_build_coherent: "tableCoherent st \<Longrightarrow> tableCoherent (AP_build P fs st)"
  by (simp add: AP_build_def Let_def AP_tasks_coherent tableCoherent_policy)

lemma built_coherent:
  assumes "files (snd (build P fs server0)) k = Some (Entry e)
           \<or> files (AP_build P fs server0) k = Some (Entry e)"
  shows "coherent e"
  using assms build_coherent [OF tableCoherent_server0, of P fs]
        AP_build_coherent [OF tableCoherent_server0, of P fs]
  by (auto simp: tableCoherent_def)

lemma robots_built:
  "files (snd (build (demoPlatform id) fsSmall server0)) ''/robots.txt'' = Some (Entry robotsEntry)"
  by (simp add: run_defs fsSmall_def demoPlatform_def preCompress_def robotsEntry_def
      cong: let_weak_cong)

lemma AP_robots_built:
  "files (AP_build (demoPlatform id) fsSmall server0) ''/robots.txt'' = Some (Entry AP_robotsEntry)"
  by (simp add: AP_build_def AP_tasks_def AP_task_def AP_processFile_def inlineCSS_def
      inlineJS_def AP_compress_def AP_makeEntry_def AP_robotsEntry_def readFile_def stat_def
      existsSync_def textFile_def server0_def Let_def publicPath_manifest fsSmall_def
      demoPlatform_def cong: let_weak_cong)

text \<open>
  Claim C7.  Every entry that either build stores in the table is coherent: its canonical
  tag is \<open>etag\<close> of its canonical body, and the tag of a Brotli or Gzip variant is
  \<open>etag\<close> of that variant's bytes, absent exactly when the variant is.  Each tag is
  thereby a function of its own variant's bytes alone.
\<close>

theorem built_entries_coherent:
  "(files (snd (build P fs server0)) k = Some (Entry e) \<longrightarrow> coherent e)
   \<and> (files (AP_build P fs server0) k = Some (Entry e) \<longrightarrow> coherent e)"
  using built_coherent [of P fs k e] by blast

theorem built_entries_coherent_witness:
  "files (snd (build (demoPlatform id) fsSmall server0)) ''/robots.txt'' = Some (Entry robotsEntry)
   \<and> coherent robotsEntry
   \<and> files (AP_build (demoPlatform id) fsSmall server0) ''/robots.txt'' = Some (Entry AP_robotsEntry)
   \<and> coherent AP_robotsEntry"
  using built_entries_coherent [of "demoPlatform id" fsSmall "''/robots.txt''" robotsEntry]
        built_entries_coherent [of "demoPlatform id" fsSmall "''/robots.txt''" AP_robotsEntry]
        robots_built AP_robots_built
  by simp

section \<open>Serving an entry\<close>

lemma headers_setSecurityHeaders:
  "k \<notin> {''X-Content-Type-Options'', ''X-Frame-Options'', ''X-XSS-Protection'', ''Referrer-Policy'',
         ''Strict-Transport-Security'', ''Permissions-Policy'', ''Content-Security-Policy''} \<Longrightarrow>
   headers (setSecurityHeaders st res) k = headers res k"
  by (simp add: setSecurityHeaders_def chain_def setHeader_def Let_def
      split: option.splits tableValue.splits)

lemma serveEntry_result:
  assumes "fst (snd (negotiate req e)) = Some t"
  shows "\<exists>r. serveEntry st req e = Inr r
     \<and> headers r ''Vary'' = Some ''Accept-Encoding''
     \<and> headers r ''Content-Encoding'' = snd (snd (negotiate req e))
     \<and> headers r ''ETag'' = Some t
     \<and> statusCode r = (if if_none_match req = Some t then 304 else 200)
     \<and> sent r = (if if_none_match req = Some t then [] else fst (negotiate req e))"
  using assms
  by (simp add: serveEntry_def Let_def chain_def setHeader_def headers_setSecurityHeaders
      response0_def split: option.splits)

lemma negotiate_cases:
  assumes "coherent e"
  shows "negotiate req e =
     (case (fst (negotiateEncoding req), br e) of
        (True, Some b) \<Rightarrow> (b, Some (etag b), Some ''br'')
      | _ \<Rightarrow> (case (snd (negotiateEncoding req), gz e) of
                 (True, Some g) \<Rightarrow> (g, Some (etag g), Some ''gzip'')
               | _ \<Rightarrow> (body e, Some (etag (body e)), None)))"
  using assms
  by (auto simp: negotiate_def Let_def coherent_def split: option.splits bool.splits)

lemma negotiate_tag:
  "coherent e \<Longrightarrow> fst (snd (negotiate req e)) = Some (etag (fst (negotiate req e)))"
  by (simp add: negotiate_cases split: option.splits bool.splits)

subsection \<open>What \<^verbatim>\<open>negotiateEncoding\<close> tests\<close>

text \<open>
  The regular expression \<^verbatim>\<open>/\bw\b/\<close>, for a word \<open>w\<close> that begins and ends with a word
  character, matches at a position exactly when \<open>w\<close> stands there as a whole word; so
  \<^verbatim>\<open>/\bbr\b/.test(ae)\<close> and \<^verbatim>\<open>/\bgzip\b/.test(ae)\<close> say that \<^verbatim>\<open>br\<close> and \<^verbatim>\<open>gzip\<close>
  occur in the header as whole words.
\<close>

lemma m_str:
  "m (R (str w) # k) i p xs caps =
     (if take (length w) xs = w
      then m k (i + length w) (if w = [] then p else Some (last w)) (drop (length w) xs) caps
      else None)"
proof (induction w arbitrary: i p xs)
  case Nil
  show ?case by (simp add: str_def)
next
  case (Cons c w)
  have unfold: "m (R (str (c # w)) # k) i p ys caps = m (R (Chr (One c)) # R (str w) # k) i p ys caps"
    for ys
    by (simp add: str_def)
  note ih = Cons.IH
  show ?case
  proof (cases xs)
    assume "xs = []"
    then show ?thesis by (simp add: unfold)
  next
    fix x ys assume "xs = x # ys"
    then show ?thesis by (simp add: unfold ih)
  qed
qed

lemma m_word:
  assumes "w \<noteq> []" and "isWordChar (hd w)" and "isWordChar (last w)"
  shows "m [R (seqs [WordB, str w, WordB])] i p xs [] =
           (if wordAt w p xs then Some (i + length w, []) else None)"
proof (cases "take (length w) xs = w")
  case False
  then show ?thesis by (simp add: seqs_def m_str wordAt_def)
next
  case True
  with assms(1) obtain x ys where xs: "xs = x # ys" and x: "x = hd w"
    by (cases xs; cases w) auto
  from assms(2) x have "isWordChar x" by simp
  with True assms(1,3) show ?thesis
    by (cases "drop (length w) xs")
       (auto simp: seqs_def m_str wordAt_def wordOpt_def xs split: option.splits)
qed

lemma search_word:
  assumes "w \<noteq> []" and "isWordChar (hd w)" and "isWordChar (last w)"
  shows "search (seqs [WordB, str w, WordB]) i p xs = occursAsWord w p xs"
  by (induction xs arbitrary: i p) (simp_all add: m_word [OF assms])

lemma test_word:
  assumes "w \<noteq> []" and "isWordChar (hd w)" and "isWordChar (last w)"
  shows "test (seqs [WordB, str w, WordB]) s = wholeWord w s"
  by (simp add: test_def wholeWord_def search_word [OF assms])

lemma negotiateEncoding_wholeWord:
  "negotiateEncoding req =
     (wholeWord ''br'' (acceptEncoding req), wholeWord ''gzip'' (acceptEncoding req))"
  by (simp add: negotiateEncoding_def acceptEncoding_def Let_def test_word isWordChar_def
      inRange_def code_def)

text \<open>The same notion without recursion: the word, with what is before and after it.\<close>

lemma occursAsWord_iff:
  "occursAsWord w p xs \<longleftrightarrow>
     (\<exists>pre post. xs = pre @ w @ post
        \<and> \<not> wordOpt (if pre = [] then p else Some (last pre))
        \<and> (post = [] \<or> \<not> isWordChar (hd post)))"
proof (induction xs arbitrary: p)
  case Nil
  show ?case by (auto simp: wordAt_def)
next
  case (Cons x xs)
  have here: "wordAt w p (x # xs) \<longleftrightarrow>
      (\<exists>post. x # xs = w @ post \<and> \<not> wordOpt p \<and> (post = [] \<or> \<not> isWordChar (hd post)))"
  proof
    assume a: "wordAt w p (x # xs)"
    then have "x # xs = w @ drop (length w) (x # xs)"
      by (metis append_take_drop_id wordAt_def)
    with a show "\<exists>post. x # xs = w @ post \<and> \<not> wordOpt p \<and> (post = [] \<or> \<not> isWordChar (hd post))"
      by (intro exI [of _ "drop (length w) (x # xs)"]) (auto simp: wordAt_def split: list.splits)
  next
    assume "\<exists>post. x # xs = w @ post \<and> \<not> wordOpt p \<and> (post = [] \<or> \<not> isWordChar (hd post))"
    then obtain post where "x # xs = w @ post" "\<not> wordOpt p" "post = [] \<or> \<not> isWordChar (hd post)"
      by blast
    then show "wordAt w p (x # xs)" by (auto simp: wordAt_def split: list.splits)
  qed
  have later: "occursAsWord w (Some x) xs \<longleftrightarrow>
      (\<exists>pre post. x # xs = (x # pre) @ w @ post
         \<and> \<not> wordOpt (Some (last (x # pre)))
         \<and> (post = [] \<or> \<not> isWordChar (hd post)))"
    by (simp add: Cons.IH)
  show ?case
  proof
    assume "occursAsWord w p (x # xs)"
    then consider "wordAt w p (x # xs)" | "occursAsWord w (Some x) xs" by auto
    then show "\<exists>pre post. x # xs = pre @ w @ post
        \<and> \<not> wordOpt (if pre = [] then p else Some (last pre))
        \<and> (post = [] \<or> \<not> isWordChar (hd post))"
    proof cases
      case 1
      with here obtain post where "x # xs = w @ post" "\<not> wordOpt p"
        "post = [] \<or> \<not> isWordChar (hd post)" by blast
      then show ?thesis by (intro exI [of _ "[]"] exI [of _ post]) simp
    next
      case 2
      with later obtain pre post where "x # xs = (x # pre) @ w @ post"
        "\<not> wordOpt (Some (last (x # pre)))" "post = [] \<or> \<not> isWordChar (hd post)" by blast
      then show ?thesis by (intro exI [of _ "x # pre"] exI [of _ post]) simp
    qed
  next
    assume "\<exists>pre post. x # xs = pre @ w @ post
        \<and> \<not> wordOpt (if pre = [] then p else Some (last pre))
        \<and> (post = [] \<or> \<not> isWordChar (hd post))"
    then obtain pre post where e: "x # xs = pre @ w @ post"
      "\<not> wordOpt (if pre = [] then p else Some (last pre))"
      "post = [] \<or> \<not> isWordChar (hd post)" by blast
    show "occursAsWord w p (x # xs)"
    proof (cases pre)
      assume "pre = []"
      with e have "\<exists>post. x # xs = w @ post \<and> \<not> wordOpt p \<and> (post = [] \<or> \<not> isWordChar (hd post))"
        by auto
      with here have "wordAt w p (x # xs)" by blast
      then show ?thesis by simp
    next
      fix y pre' assume pre: "pre = y # pre'"
      with e have "y = x" by simp
      with e pre have "\<exists>pre post. x # xs = (x # pre) @ w @ post
         \<and> \<not> wordOpt (Some (last (x # pre)))
         \<and> (post = [] \<or> \<not> isWordChar (hd post))"
        by (intro exI [of _ pre'] exI [of _ post]) simp
      with later have "occursAsWord w (Some x) xs" by blast
      then show ?thesis by simp
    qed
  qed
qed

lemma wholeWord_iff:
  "wholeWord w s \<longleftrightarrow>
     (\<exists>pre post. s = pre @ w @ post
        \<and> (pre = [] \<or> \<not> isWordChar (last pre))
        \<and> (post = [] \<or> \<not> isWordChar (hd post)))"
  unfolding wholeWord_def occursAsWord_iff
  by (rule arg_cong [where f = Ex], rule ext, rule arg_cong [where f = Ex], rule ext)
     (auto simp: wordOpt_def)

subsection \<open>Claim C8\<close>

text \<open>What \<^verbatim>\<open>negotiateEncoding\<close> makes of some \<^verbatim>\<open>Accept-Encoding\<close> headers.\<close>

lemma negotiateEncoding_examples:
  "negotiateEncoding \<lparr>accept_encoding = Some ''gzip, deflate, br'', if_none_match = v\<rparr> = (True, True)"
  "negotiateEncoding \<lparr>accept_encoding = Some ''gzip, deflate'', if_none_match = v\<rparr> = (False, True)"
  "negotiateEncoding \<lparr>accept_encoding = Some ''identity'', if_none_match = v\<rparr> = (False, False)"
  "negotiateEncoding \<lparr>accept_encoding = None, if_none_match = v\<rparr> = (False, False)"
  by (simp_all add: negotiateEncoding_def re_defs)

lemma negotiateEncoding_weights:
  "negotiateEncoding \<lparr>accept_encoding = Some ''br;q=0, gzip'', if_none_match = v\<rparr> = (True, True)"
  "negotiateEncoding \<lparr>accept_encoding = Some ''gzip, x-br'', if_none_match = v\<rparr> = (True, True)"
  "negotiateEncoding \<lparr>accept_encoding = Some ''GZIP'', if_none_match = v\<rparr> = (False, False)"
  by (simp_all add: negotiateEncoding_def re_defs)

lemmas http_defs = httpAccepts_def codingOf_def zeroWeight_def strip_def ows_def asciiLower_def
  inRange_def code_def char_of_bits Let_def

lemma httpAccepts_examples:
  "httpAccepts ''gzip'' ''br;q=0, gzip''" "\<not> httpAccepts ''br'' ''br;q=0, gzip''"
  "httpAccepts ''gzip'' ''gzip, x-br''" "\<not> httpAccepts ''br'' ''gzip, x-br''"
  "httpAccepts ''gzip'' ''GZIP''"
  "httpAccepts ''gzip'' ''gzip, deflate, br''" "httpAccepts ''br'' ''gzip, deflate, br''"
  "httpAccepts ''br'' ''gzip;q=0.8, *;q=0.1''" "\<not> httpAccepts ''br'' ''''"
  by (simp_all add: http_defs)

lemma robotsEntry_variants:
  "coherent robotsEntry"
  "br robotsEntry = Some (0 # asciiBytes ''d'')"
  "gz robotsEntry = Some (1 # asciiBytes ''d'')"
  "body robotsEntry = asciiBytes ''d''"
  by (simp_all add: robotsEntry_def makeEntry_coherent) (simp_all add: makeEntry_def)

lemma wholeWord_examples:
  "wholeWord ''br'' ''gzip, deflate, br''" "wholeWord ''gzip'' ''gzip, deflate, br''"
  "\<not> wholeWord ''br'' ''gzip, deflate''" "wholeWord ''gzip'' ''gzip, deflate''"
  "\<not> wholeWord ''br'' ''identity''" "\<not> wholeWord ''gzip'' ''identity''"
  by (simp_all add: wholeWord_def wordAt_def wordOpt_def isWordChar_def inRange_def code_def)

text \<open>
  Claim C8, as amended.  Let an entry have both compressed variants (and coherent tags, as
  every entry of the table has).  Whatever the request, the response carries
  \<^verbatim>\<open>Vary: Accept-Encoding\<close>.  When \<^verbatim>\<open>br\<close> occurs as a whole word in the request's
  \<^verbatim>\<open>Accept-Encoding\<close>, the Brotli bytes are chosen, with \<^verbatim>\<open>Content-Encoding: br\<close> and the
  Brotli tag; when \<^verbatim>\<open>gzip\<close> occurs as a whole word and \<^verbatim>\<open>br\<close> does not, the Gzip bytes,
  with \<^verbatim>\<open>Content-Encoding: gzip\<close>; when neither does (or the header is absent), the
  canonical body with no \<^verbatim>\<open>Content-Encoding\<close>.  Weights are not read.  The chosen bytes
  are what is sent, unless the request's \<^verbatim>\<open>If-None-Match\<close> is the chosen tag (claim C9),
  when nothing is.
\<close>

theorem negotiation_whole_word:
  assumes "coherent e" and "br e = Some b" and "gz e = Some g"
  shows "\<exists>r. serveEntry st req e = Inr r
     \<and> headers r ''Vary'' = Some ''Accept-Encoding''
     \<and> (wholeWord ''br'' (acceptEncoding req) \<longrightarrow>
          headers r ''Content-Encoding'' = Some ''br'' \<and> headers r ''ETag'' = Some (etag b)
          \<and> sent r = (if if_none_match req = Some (etag b) then [] else b))
     \<and> (\<not> wholeWord ''br'' (acceptEncoding req) \<and> wholeWord ''gzip'' (acceptEncoding req) \<longrightarrow>
          headers r ''Content-Encoding'' = Some ''gzip'' \<and> headers r ''ETag'' = Some (etag g)
          \<and> sent r = (if if_none_match req = Some (etag g) then [] else g))
     \<and> (\<not> wholeWord ''br'' (acceptEncoding req) \<and> \<not> wholeWord ''gzip'' (acceptEncoding req) \<longrightarrow>
          headers r ''Content-Encoding'' = None \<and> headers r ''ETag'' = Some (etag (body e))
          \<and> sent r = (if if_none_match req = Some (etag (body e)) then [] else body e))"
proof -
  have t: "fst (snd (negotiate req e)) = Some (etag (fst (negotiate req e)))"
    using assms(1) by (rule negotiate_tag)
  from serveEntry_result [OF t, of st] obtain r where
    r: "serveEntry st req e = Inr r"
       "headers r ''Vary'' = Some ''Accept-Encoding''"
       "headers r ''Content-Encoding'' = snd (snd (negotiate req e))"
       "headers r ''ETag'' = Some (etag (fst (negotiate req e)))"
       "sent r = (if if_none_match req = Some (etag (fst (negotiate req e))) then []
                  else fst (negotiate req e))"
    by blast
  show ?thesis
    using r assms(2,3)
    by (cases "wholeWord ''br'' (acceptEncoding req)";
        cases "wholeWord ''gzip'' (acceptEncoding req)")
       (simp_all add: negotiate_cases [OF assms(1)] negotiateEncoding_wholeWord)
qed

theorem negotiation_whole_word_witness:
  "(wholeWord ''br'' ''gzip, deflate, br''
    \<and> (\<exists>r. serveEntry server0 \<lparr>accept_encoding = Some ''gzip, deflate, br'', if_none_match = None\<rparr>
          robotsEntry = Inr r
        \<and> headers r ''Vary'' = Some ''Accept-Encoding''
        \<and> headers r ''Content-Encoding'' = Some ''br'' \<and> sent r = 0 # asciiBytes ''d''))
   \<and> (\<not> wholeWord ''br'' ''gzip, deflate'' \<and> wholeWord ''gzip'' ''gzip, deflate''
    \<and> (\<exists>r. serveEntry server0 \<lparr>accept_encoding = Some ''gzip, deflate'', if_none_match = None\<rparr>
          robotsEntry = Inr r
        \<and> headers r ''Vary'' = Some ''Accept-Encoding''
        \<and> headers r ''Content-Encoding'' = Some ''gzip'' \<and> sent r = 1 # asciiBytes ''d''))
   \<and> (\<not> wholeWord ''br'' ''identity'' \<and> \<not> wholeWord ''gzip'' ''identity''
    \<and> (\<exists>r. serveEntry server0 \<lparr>accept_encoding = Some ''identity'', if_none_match = None\<rparr>
          robotsEntry = Inr r
        \<and> headers r ''Vary'' = Some ''Accept-Encoding''
        \<and> headers r ''Content-Encoding'' = None \<and> sent r = asciiBytes ''d''))"
  using negotiation_whole_word [OF robotsEntry_variants(1,2,3), of server0
          "\<lparr>accept_encoding = Some ''gzip, deflate, br'', if_none_match = None\<rparr>"]
        negotiation_whole_word [OF robotsEntry_variants(1,2,3), of server0
          "\<lparr>accept_encoding = Some ''gzip, deflate'', if_none_match = None\<rparr>"]
        negotiation_whole_word [OF robotsEntry_variants(1,2,3), of server0
          "\<lparr>accept_encoding = Some ''identity'', if_none_match = None\<rparr>"]
  by (simp add: acceptEncoding_def wholeWord_examples robotsEntry_variants(4)) blast

text \<open>
  Claim C8 as stated fails when accepting is what HTTP means by it.  The header
  \<^verbatim>\<open>br;q=0, gzip\<close> accepts Gzip and refuses Brotli; the entry has both variants; the
  response is the Brotli body with \<^verbatim>\<open>Content-Encoding: br\<close>, because \<^verbatim>\<open>br\<close> occurs in
  the header.
\<close>

theorem negotiation_weight_counterexample:
  "httpAccepts ''gzip'' ''br;q=0, gzip'' \<and> \<not> httpAccepts ''br'' ''br;q=0, gzip''
   \<and> br robotsEntry = Some (0 # asciiBytes ''d'') \<and> gz robotsEntry = Some (1 # asciiBytes ''d'')
   \<and> (\<exists>r. serveEntry server0 \<lparr>accept_encoding = Some ''br;q=0, gzip'', if_none_match = None\<rparr>
          robotsEntry = Inr r
        \<and> headers r ''Content-Encoding'' = Some ''br'' \<and> sent r = 0 # asciiBytes ''d'')"
proof -
  let ?req = "\<lparr>accept_encoding = Some ''br;q=0, gzip'', if_none_match = None\<rparr>"
  have n: "negotiate ?req robotsEntry
      = (0 # asciiBytes ''d'', Some (etag (0 # asciiBytes ''d'')), Some ''br'')"
    by (simp add: negotiate_cases robotsEntry_variants negotiateEncoding_weights)
  have "fst (snd (negotiate ?req robotsEntry)) = Some (etag (0 # asciiBytes ''d''))"
    by (simp add: n)
  from serveEntry_result [OF this, of server0] show ?thesis
    by (simp add: n httpAccepts_examples robotsEntry_variants) blast
qed

text \<open>
  Two more headers on which the code's test and HTTP differ: \<^verbatim>\<open>gzip, x-br\<close> lists the
  coding \<^verbatim>\<open>x-br\<close>, not \<^verbatim>\<open>br\<close>, and \<^verbatim>\<open>br\<close> is a whole word of it; \<^verbatim>\<open>GZIP\<close> is the
  coding \<^verbatim>\<open>gzip\<close>, and the code's test is case-sensitive.
\<close>

lemma negotiation_other_headers:
  "httpAccepts ''gzip'' ''gzip, x-br'' \<and> \<not> httpAccepts ''br'' ''gzip, x-br''
   \<and> fst (negotiate \<lparr>accept_encoding = Some ''gzip, x-br'', if_none_match = None\<rparr> robotsEntry)
       = 0 # asciiBytes ''d''"
  "httpAccepts ''gzip'' ''GZIP''
   \<and> fst (negotiate \<lparr>accept_encoding = Some ''GZIP'', if_none_match = None\<rparr> robotsEntry)
       = asciiBytes ''d''"
  by (simp_all add: negotiate_cases robotsEntry_variants negotiateEncoding_weights
      httpAccepts_examples)

subsection \<open>Claim C9\<close>

text \<open>
  Claim C9.  Let an entry be in the table after a build, and take any request.  The
  response carries as \<^verbatim>\<open>ETag\<close> the tag of the negotiated variant, which is \<open>etag\<close> of
  the negotiated bytes.  When the request's \<^verbatim>\<open>If-None-Match\<close> is that very tag, the
  status is 304 and nothing is sent; otherwise (another value, or no such header) the
  status is 200 and the negotiated bytes are sent.
\<close>

theorem conditional_request:
  assumes "files (snd (build P fs server0)) k = Some (Entry e)
           \<or> files (AP_build P fs server0) k = Some (Entry e)"
  shows "\<exists>r t. serveEntry st req e = Inr r
     \<and> fst (snd (negotiate req e)) = Some t \<and> t = etag (fst (negotiate req e))
     \<and> headers r ''ETag'' = Some t
     \<and> (if_none_match req = Some t \<longrightarrow> statusCode r = 304 \<and> sent r = [])
     \<and> (if_none_match req \<noteq> Some t \<longrightarrow> statusCode r = 200 \<and> sent r = fst (negotiate req e))"
proof -
  from assms have "coherent e" by (rule built_coherent)
  then have t: "fst (snd (negotiate req e)) = Some (etag (fst (negotiate req e)))"
    by (rule negotiate_tag)
  from serveEntry_result [OF t, of st] show ?thesis
    using t by auto
qed

lemma robots_negotiated:
  "negotiate \<lparr>accept_encoding = Some ''gzip, deflate, br'', if_none_match = v\<rparr> robotsEntry
     = (0 # asciiBytes ''d'', Some (etag (0 # asciiBytes ''d'')), Some ''br'')"
  by (simp add: negotiate_cases robotsEntry_variants negotiateEncoding_examples)

lemma robots_br_tag: "etag (0 # asciiBytes ''d'') = ''W/\"6d7728a1-2\"''"
  by (simp add: etag_def etag_loop.simps Math_imul_def numberToString.simps digitChar_def
      asciiBytes_def code_def)

theorem conditional_request_witness:
  "(\<exists>r. serveEntry server0
          \<lparr>accept_encoding = Some ''gzip, deflate, br'', if_none_match = Some ''W/\"6d7728a1-2\"''\<rparr>
          robotsEntry = Inr r
        \<and> headers r ''ETag'' = Some ''W/\"6d7728a1-2\"'' \<and> statusCode r = 304 \<and> sent r = [])
   \<and> (\<exists>r. serveEntry server0
          \<lparr>accept_encoding = Some ''gzip, deflate, br'', if_none_match = Some ''W/\"0-0\"''\<rparr>
          robotsEntry = Inr r
        \<and> headers r ''ETag'' = Some ''W/\"6d7728a1-2\"'' \<and> statusCode r = 200
        \<and> sent r = 0 # asciiBytes ''d'')"
  using conditional_request [OF disjI1 [OF robots_built], of server0
          "\<lparr>accept_encoding = Some ''gzip, deflate, br'', if_none_match = Some ''W/\"6d7728a1-2\"''\<rparr>"]
        conditional_request [OF disjI1 [OF robots_built], of server0
          "\<lparr>accept_encoding = Some ''gzip, deflate, br'', if_none_match = Some ''W/\"0-0\"''\<rparr>"]
  by (simp add: robots_negotiated robots_br_tag)

section \<open>The build of server.js at two inputs\<close>

text \<open>
  Claim C5 at a failing input.  The working directory has \<^verbatim>\<open>index.html\<close>,
  \<^verbatim>\<open>script.js\<close> and \<^verbatim>\<open>robots.txt\<close> and no \<^verbatim>\<open>style.css\<close>.  The build of
  server.js rejects with the read error of \<^verbatim>\<open>style.css\<close>, and the table then holds
  \<^verbatim>\<open>/index.html\<close> alone: the script and the static asset, both present, are never
  processed, and no policy is stored.
\<close>

theorem build_aborts_without_stylesheet:
  "fst (build P fsNoStylesheet server0) = Some (ReadError ''style.css'')
   \<and> dom (files (snd (build P fsNoStylesheet server0))) = {''/index.html''}
   \<and> existsSync fsNoStylesheet ''script.js'' \<and> existsSync fsNoStylesheet ''robots.txt''"
  by (simp add: run_defs fsNoStylesheet_def cong: let_weak_cong)

text \<open>The class variant on the same directory stores every file that is there.\<close>

lemma AP_build_without_stylesheet:
  "dom (files (AP_build P fsNoStylesheet server0))
     = {''/index.html'', ''/script.js'', ''/robots.txt'', ''__csp__''}"
  by (auto simp: AP_build_def AP_tasks_def AP_task_def AP_processFile_def inlineCSS_def
      inlineJS_def AP_makeEntry_def readFile_def stat_def existsSync_def textFile_def
      server0_def Let_def publicPath_manifest fsNoStylesheet_def cong: let_weak_cong)

lemma minifyHTML_script: "minifyHTML ''<script>x = 1</script>'' = ''<script>x=1</script>''"
  by (simp add: re_defs html_defs cong: let_weak_cong replaceAll_cong matchAll_cong)

lemma extract_source:
  "extractInlineContent P ''<script>x = 1</script>'' st =
     st\<lparr>scripts := [quoted (''sha256-'' @ sha256_base64 P ''x = 1'')], styles := []\<rparr>"
  by (simp add: re_defs csp_defs cong: let_weak_cong replaceAll_cong matchAll_cong)

lemma extract_served:
  "extractInlineContent P ''<script>x=1</script>'' st =
     st\<lparr>scripts := [quoted (''sha256-'' @ sha256_base64 P ''x=1'')], styles := []\<rparr>"
  by (simp add: re_defs csp_defs cong: let_weak_cong replaceAll_cong matchAll_cong)

text \<open>
  Claim C1 at a failing input.  The page is \<^verbatim>\<open><script>x = 1</script>\<close>.  The build of
  server.js succeeds and stores the minified page \<^verbatim>\<open><script>x=1</script>\<close>, whose inline
  script \<^verbatim>\<open>x=1\<close> needs the token of the digest of \<^verbatim>\<open>x=1\<close>.  The hash set and the
  policy hold the token of the digest of \<^verbatim>\<open>x = 1\<close>, the script of the source text:
  \<^verbatim>\<open>loadAndMinify\<close> extracts before it minifies.  The digest \<open>H\<close> is any function.
\<close>

theorem policy_hashes_source_text:
  "fst (build (barePlatform H) fsInlineScript server0) = None
   \<and> tableBody (snd (build (barePlatform H) fsInlineScript server0)) ''/index.html''
       = Some (asciiBytes ''<script>x=1</script>'')
   \<and> scripts (extractInlineContent (barePlatform H) ''<script>x=1</script>'' server0)
       = [quoted (''sha256-'' @ H ''x=1'')]
   \<and> scripts (snd (build (barePlatform H) fsInlineScript server0))
       = [quoted (''sha256-'' @ H ''x = 1'')]
   \<and> files (snd (build (barePlatform H) fsInlineScript server0)) ''__csp__''
       = Some (Policy (''default-src 'self'; script-src 'self' '' @ quoted (''sha256-'' @ H ''x = 1'')
           @ ''; style-src 'self' 'unsafe-inline'; img-src 'self' data: https:; font-src 'self'; connect-src 'self'; media-src 'self'; object-src 'none'; child-src 'none'; worker-src 'none'; frame-ancestors 'none'; form-action 'self'; base-uri 'self'; manifest-src '' @ quoted ''self''))"
  by (simp add: run_defs fsInlineScript_def barePlatform_def tableBody_def makeEntry_def
      minifyHTML_script extract_source extract_served generateCSP_def scriptSrc_def
      styleSrc_def quoted_def cong: let_weak_cong)

section \<open>The build of the class variant\<close>

text \<open>
  \<^verbatim>\<open>AssetProcessor.processFile\<close> extracts the hashes from the text it stores: whenever the
  table has the page after the build, the body of its entry is the encoding of a text
  \<open>html\<close>, the two hash sets are those of \<open>html\<close>, and the stored policy is generated
  from them.
\<close>

lemma AP_task_other:
  assumes "fst t \<noteq> ''index.html''"
  shows "scripts (AP_task P fs t st) = scripts st"
    and "styles (AP_task P fs t st) = styles st"
    and "publicPath (fst t) \<noteq> k \<Longrightarrow> files (AP_task P fs t st) k = files st k"
  using assms
  by (auto simp: AP_task_def AP_processFile_def AP_makeEntry_def Let_def
      split: sum.splits prod.splits)

lemma AP_processFile_index:
  assumes "AP_processFile P fs ''index.html'' mf st = Inr r"
  shows "\<exists>html. body (fst r) = utf8_encode P html \<and> snd r = AP_extractCSPHashes P html st
           \<and> path (fst r) = ''/index.html''"
proof -
  from assms obtain mtime html2 where
    r: "r = (AP_makeEntry ''index.html'' mtime
               (utf8_encode P (case mf of Some f \<Rightarrow> f html2 | None \<Rightarrow> html2))
               (AP_compress P (utf8_encode P (case mf of Some f \<Rightarrow> f html2 | None \<Rightarrow> html2))),
             AP_extractCSPHashes P (case mf of Some f \<Rightarrow> f html2 | None \<Rightarrow> html2) st)"
    by (auto simp: AP_processFile_def Let_def split: sum.splits)
  show ?thesis
    unfolding r
    by (intro exI [of _ "case mf of Some f \<Rightarrow> f html2 | None \<Rightarrow> html2"])
       (simp add: AP_makeEntry_def publicPath_manifest)
qed

lemma AP_task_index:
  assumes "files (AP_task P fs (''index.html'', mf) server0) ''/index.html'' = Some (Entry e)"
  shows "\<exists>html. body e = utf8_encode P html
           \<and> scripts (AP_task P fs (''index.html'', mf) server0)
               = scripts (AP_extractCSPHashes P html server0)
           \<and> styles (AP_task P fs (''index.html'', mf) server0)
               = styles (AP_extractCSPHashes P html server0)"
proof (cases "existsSync fs ''index.html''")
  case False
  with assms show ?thesis by (simp add: AP_task_def server0_def)
next
  case True
  show ?thesis
  proof (cases "AP_processFile P fs ''index.html'' mf server0")
    case (Inl err)
    with assms True show ?thesis by (simp add: AP_task_def server0_def)
  next
    case (Inr r)
    from AP_processFile_index [OF Inr] obtain html where
      h: "body (fst r) = utf8_encode P html" "snd r = AP_extractCSPHashes P html server0"
         "path (fst r) = ''/index.html''" by blast
    from assms True Inr h(3) have "e = fst r"
      by (simp add: AP_task_def split: prod.splits)
    with True Inr h show ?thesis
      by (intro exI [of _ html]) (auto simp: AP_task_def split: prod.splits)
  qed
qed

lemma AP_generateCSP_cong:
  "scripts a = scripts b \<Longrightarrow> styles a = styles b \<Longrightarrow> AP_generateCSP a = AP_generateCSP b"
  by (simp add: AP_generateCSP_def AP_scriptSrc_def AP_styleSrc_def)

lemma AP_build_hashes_served:
  assumes "files (AP_build P fs server0) ''/index.html'' = Some (Entry e)"
  shows "\<exists>html. body e = utf8_encode P html
           \<and> scripts (AP_build P fs server0) = scripts (AP_extractCSPHashes P html server0)
           \<and> styles (AP_build P fs server0) = styles (AP_extractCSPHashes P html server0)
           \<and> files (AP_build P fs server0) ''__csp__''
               = Some (Policy (AP_generateCSP (AP_extractCSPHashes P html server0)))"
proof -
  let ?s1 = "AP_task P fs (''index.html'', Some AP_minifyHTML) server0"
  let ?s7 = "foldl (\<lambda>s t. AP_task P fs t s) server0 AP_tasks"
  have other: "scripts (AP_task P fs t st) = scripts st"
      "styles (AP_task P fs t st) = styles st"
      "files (AP_task P fs t st) ''/index.html'' = files st ''/index.html''"
    if "t \<in> set (tl AP_tasks)" for t st
    using that by (auto simp: AP_tasks_def AP_task_other publicPath_manifest)
  have rest: "scripts (foldl (\<lambda>s t. AP_task P fs t s) st ts) = scripts st
      \<and> styles (foldl (\<lambda>s t. AP_task P fs t s) st ts) = styles st
      \<and> files (foldl (\<lambda>s t. AP_task P fs t s) st ts) ''/index.html'' = files st ''/index.html''"
    if "set ts \<subseteq> set (tl AP_tasks)" for ts st
    using that by (induction ts arbitrary: st) (simp_all add: other)
  have split: "?s7 = foldl (\<lambda>s t. AP_task P fs t s) ?s1 (tl AP_tasks)"
    by (simp add: AP_tasks_def)
  have s7: "scripts ?s7 = scripts ?s1" "styles ?s7 = styles ?s1"
    "files ?s7 ''/index.html'' = files ?s1 ''/index.html''"
    by (simp_all add: split rest)
  from assms have "files ?s1 ''/index.html'' = Some (Entry e)"
    by (simp add: AP_build_def Let_def s7)
  from AP_task_index [OF this] obtain html where
    h: "body e = utf8_encode P html"
       "scripts ?s1 = scripts (AP_extractCSPHashes P html server0)"
       "styles ?s1 = styles (AP_extractCSPHashes P html server0)"
    by blast
  have "AP_generateCSP ?s7 = AP_generateCSP (AP_extractCSPHashes P html server0)"
    by (rule AP_generateCSP_cong) (simp_all add: s7 h)
  with h show ?thesis
    by (intro exI [of _ html]) (simp add: AP_build_def Let_def s7)
qed

text \<open>
  \<^verbatim>\<open>AssetProcessor.build\<close> stores every manifest entry other than the page whose file
  can be read, whatever happens to the other entries.  The page itself reads
  \<^verbatim>\<open>style.css\<close> and \<^verbatim>\<open>script.js\<close> when they exist, so it is stored when those reads
  succeed too.
\<close>

lemma AP_task_keep:
  "publicPath (fst t) \<noteq> k \<Longrightarrow> files (AP_task P fs t st) k = files st k"
  by (auto simp: AP_task_def AP_processFile_def AP_makeEntry_def Let_def
      split: sum.splits prod.splits)

lemma AP_task_own:
  assumes "fst t \<noteq> ''index.html''" "readFile fs (fst t) = Inr content" "stat fs (fst t) = Inr mtime"
  shows "\<exists>e. files (AP_task P fs t st) (publicPath (fst t)) = Some (Entry e)"
  using assms
  by (auto simp: AP_task_def AP_processFile_def AP_makeEntry_def Let_def existsSync_def
      readFile_def split: sum.splits prod.splits option.splits fsNode.splits)

lemma AP_build_tolerant:
  assumes "name \<in> {''style.css'', ''script.js'', ''favicon.webp'', ''profile.webp'',
                    ''robots.txt'', ''sitemap.xml''}"
    and "readFile fs name = Inr content" and "stat fs name = Inr mtime"
  shows "\<exists>e. files (AP_build P fs st) (publicPath name) = Some (Entry e)"
proof -
  have "\<exists>e. files (AP_task P fs (name, mf) s) (publicPath name) = Some (Entry e)" for mf s
    using AP_task_own [of "(name, mf)" fs content mtime P s] assms by auto
  then have own:
    "\<forall>mf s. \<exists>e. files (AP_task P fs (name, mf) s) (publicPath name) = Some (Entry e)"
    by blast
  have last: "files (AP_build P fs st) (publicPath name)
      = files (foldl (\<lambda>s t. AP_task P fs t s) st AP_tasks) (publicPath name)"
    using assms(1) by (auto simp: AP_build_def Let_def publicPath_manifest)
  from own assms(1) show ?thesis
    unfolding last
    by (elim insertE emptyE)
       (simp_all add: AP_tasks_def AP_task_keep publicPath_manifest)
qed

lemma AP_build_unreadable_stylesheet:
  "dom (files (AP_build P fsUnreadableStylesheet server0)) = {''/robots.txt'', ''__csp__''}"
  by (auto simp: AP_build_def AP_tasks_def AP_task_def AP_processFile_def inlineCSS_def
      inlineJS_def AP_makeEntry_def readFile_def stat_def existsSync_def textFile_def
      server0_def Let_def publicPath_manifest fsUnreadableStylesheet_def cong: let_weak_cong)

section \<open>Idempotence of the minifiers\<close>

subsection \<open>The character tests\<close>

lemma test_Chr_single: "test (Chr t) [c] = accepts t c"
  by (simp add: test_def)

lemma test_sp: "test sp [c] = isSpace c"
  by (simp add: sp_def test_Chr_single)

lemma test_operatorChar: "test operatorChar [c] = isOperator c"
  by (simp add: operatorChar_def oneOf_def test_Chr_single isOperator_def)

lemma test_identChar_single: "test identChar [c] = isIdent c"
  by (simp add: identChar_def test_Chr_single isIdent_def)

lemma test_identChar_undefined: "test identChar ''undefined''"
  by (simp add: identChar_def test_def inRange_def code_def)

lemma test_identChar_String: "test identChar (String v) = identOpt v"
  by (cases v) (simp_all add: String_def test_identChar_single test_identChar_undefined)

lemma pass1_plain_aux:
  "set src \<inter> {CHR 0x22, CHR 0x27, CHR 0x60, CHR ''/''} = {} \<Longrightarrow>
   \<not> inStr s \<Longrightarrow> \<not> inTemplate s \<Longrightarrow> idx s \<le> length src \<Longrightarrow>
   acc s = take (idx s) src \<Longrightarrow> acc (pass1 src s) = src"
proof (induction src s rule: pass1.induct)
  case (1 src s)
  show ?case
  proof (cases "idx s < length src")
    case True
    let ?ch = "src ! idx s"
    from True have "?ch \<in> set src" by simp
    with "1.prems"(1) have ch:
      "?ch \<noteq> CHR 0x22" "?ch \<noteq> CHR 0x27" "?ch \<noteq> CHR 0x60" "?ch \<noteq> CHR ''/''"
      by auto
    have step: "step1 src s = s\<lparr>acc := acc s @ [?ch], idx := idx s + 1\<rparr>"
      using ch "1.prems"(2,3) by (simp add: step1_def Let_def)
    have "acc (pass1 src (step1 src s)) = src"
    proof (rule "1.IH" [OF True "1.prems"(1)])
      show "\<not> inStr (step1 src s)" "\<not> inTemplate (step1 src s)"
        using "1.prems"(2,3) by (simp_all add: step)
      show "idx (step1 src s) \<le> length src" using True by (simp add: step)
      show "acc (step1 src s) = take (idx (step1 src s)) src"
        using True "1.prems"(5) by (simp add: step take_Suc_conv_app_nth)
    qed
    with True show ?thesis by (subst pass1.simps) simp
  next
    case False
    with "1.prems" show ?thesis by (subst pass1.simps) simp
  qed
qed

lemma pass1_plain:
  "set x \<inter> {CHR 0x22, CHR 0x27, CHR 0x60, CHR ''/''} = {} \<Longrightarrow> acc (pass1 x scan0) = x"
  by (rule pass1_plain_aux) (simp_all add: scan0_def)

subsection \<open>The second loop is \<open>scanWs\<close>\<close>

lemma skipSpaces_drop:
  "k \<le> length out \<Longrightarrow>
   skipSpaces out k \<le> length out \<and> drop (skipSpaces out k) out = dropWhile isSpace (drop k out)"
proof (induction out k rule: skipSpaces.induct)
  case (1 out k)
  show ?case
  proof (cases "k < length out \<and> isSpace (out ! k)")
    case True
    then have d: "drop k out = out ! k # drop (k + 1) out"
      by (simp add: Cons_nth_drop_Suc)
    from True have "k + 1 \<le> length out" by simp
    with 1 True have "skipSpaces out (k + 1) \<le> length out \<and>
        drop (skipSpaces out (k + 1)) out = dropWhile isSpace (drop (k + 1) out)"
      by (simp add: test_sp)
    with True d show ?thesis
      by (subst (1 2) skipSpaces.simps) (simp add: test_sp)
  next
    case False
    then have s: "skipSpaces out k = k"
      by (subst skipSpaces.simps) (auto simp: test_sp)
    show ?thesis
    proof (cases "k < length out")
      case True
      with False have "\<not> isSpace (out ! k)" by simp
      moreover from True have "drop k out = out ! k # drop (k + 1) out"
        by (simp add: Cons_nth_drop_Suc)
      ultimately show ?thesis using 1 s by simp
    next
      case False
      with "1.prems" s show ?thesis by simp
    qed
  qed
qed

lemma charAt_drop: "charAt out k = hdOpt (drop k out)"
  by (cases "k < length out")
     (simp_all add: charAt_def hdOpt_def Cons_nth_drop_Suc [symmetric])

lemma pass2_scanWs:
  "set out \<inter> {CHR 0x22, CHR 0x27, CHR 0x60} = {} \<Longrightarrow>
   \<not> inStr s \<Longrightarrow> \<not> inTemplate s \<Longrightarrow> idx s \<le> length out \<Longrightarrow>
   acc (pass2 out s) = scanWs (acc s) (drop (idx s) out)"
proof (induction out s rule: pass2.induct)
  case (1 out s)
  show ?case
  proof (cases "idx s < length out")
    case True
    let ?ch = "out ! idx s"
    from True have d: "drop (idx s) out = ?ch # drop (Suc (idx s)) out"
      by (simp add: Cons_nth_drop_Suc)
    from True have "?ch \<in> set out" by simp
    with "1.prems"(1) have ch: "?ch \<noteq> CHR 0x22" "?ch \<noteq> CHR 0x27" "?ch \<noteq> CHR 0x60"
      by auto
    have unf: "pass2 out s = pass2 out (step2 out s)"
      using True by (subst pass2.simps) simp
    show ?thesis
    proof (cases "isSpace ?ch")
      case sp: True
      let ?k = "skipSpaces out (Suc (idx s))"
      from True have k1: "Suc (idx s) \<le> length out" by simp
      from skipSpaces_drop [OF k1] have
        k: "?k \<le> length out" "drop ?k out = dropWhile isSpace (drop (Suc (idx s)) out)"
        by simp_all
      have step: "step2 out s =
          s\<lparr>acc := (if identOpt (lastOpt (acc s)) \<and> identOpt (hdOpt (drop ?k out))
                     then acc s @ '' '' else acc s),
            idx := ?k\<rparr>"
        using ch sp "1.prems"(2,3)
        by (simp add: step2_def Let_def test_sp test_identChar_String charAt_drop lastOpt_def
            split: option.splits)
      have "acc (pass2 out (step2 out s)) = scanWs (acc (step2 out s)) (drop (idx (step2 out s)) out)"
      proof (rule "1.IH" [OF True "1.prems"(1)])
        show "\<not> inStr (step2 out s)" "\<not> inTemplate (step2 out s)"
          using "1.prems"(2,3) by (simp_all add: step)
        show "idx (step2 out s) \<le> length out" using k(1) by (simp add: step)
      qed
      then show ?thesis
        using sp by (simp add: unf d step k(2))
    next
      case nsp: False
      have step: "step2 out s =
          s\<lparr>acc := (if isOperator ?ch \<and> endsWith (acc s) '' '' then butlast (acc s) else acc s) @ [?ch],
            idx := Suc (idx s)\<rparr>"
        using ch nsp "1.prems"(2,3)
        by (simp add: step2_def Let_def test_sp test_operatorChar)
      have "acc (pass2 out (step2 out s)) = scanWs (acc (step2 out s)) (drop (idx (step2 out s)) out)"
      proof (rule "1.IH" [OF True "1.prems"(1)])
        show "\<not> inStr (step2 out s)" "\<not> inTemplate (step2 out s)"
          using "1.prems"(2,3) by (simp_all add: step)
        show "idx (step2 out s) \<le> length out" using True by (simp add: step)
      qed
      then show ?thesis
        using nsp by (simp add: unf d step)
    qed
  next
    case False
    with "1.prems" show ?thesis by (subst pass2.simps) simp
  qed
qed

lemma pass2_plain:
  "set x \<inter> {CHR 0x22, CHR 0x27, CHR 0x60} = {} \<Longrightarrow> acc (pass2 x scan0) = scanWs [] x"
  using pass2_scanWs [of x scan0] by (simp add: scan0_def)

subsection \<open>The output of \<open>scanWs\<close> is a fixed point\<close>

lemma isSpace_space [simp]: "isSpace CHR '' ''"
  by (simp add: isSpace_def)

lemma not_isIdent_space [simp]: "\<not> isIdent CHR '' ''"
  by (simp add: isIdent_def inRange_def code_def)

lemma isIdent_not_isSpace: "isIdent c \<Longrightarrow> \<not> isSpace c"
  by (auto simp: isIdent_def isSpace_def inRange_def code_def)

lemma isIdent_not_isOperator: "isIdent c \<Longrightarrow> \<not> isOperator c"
  by (auto simp: isIdent_def isOperator_def inRange_def code_def)

lemma endsWith_space: "endsWith a '' '' = (lastOpt a = Some CHR '' '')"
proof (cases a rule: rev_cases)
  case Nil
  then show ?thesis by (simp add: endsWith_def lastOpt_def)
next
  case (snoc ys y)
  then show ?thesis by (auto simp: endsWith_def lastOpt_def)
qed

lemma dropWhile_ident: "identOpt (hdOpt cs) \<Longrightarrow> dropWhile isSpace cs = cs"
  by (cases cs) (auto simp: hdOpt_def isIdent_not_isSpace)

lemma scanWs_normal_id:
  "nf (lastOpt a) z \<Longrightarrow> (lastOpt a = Some CHR '' '' \<longrightarrow> identOpt (hdOpt z)) \<Longrightarrow> scanWs a z = a @ z"
proof (induction z arbitrary: a)
  case Nil
  then show ?case by simp
next
  case (Cons c cs)
  show ?case
  proof (cases "c = CHR '' ''")
    case True
    with Cons.prems(1) have p: "identOpt (lastOpt a)" "identOpt (hdOpt cs)" "nf (Some CHR '' '') cs"
      by simp_all
    have "scanWs (a @ '' '') cs = (a @ '' '') @ cs"
      by (rule Cons.IH) (simp_all add: lastOpt_def p)
    with True p show ?thesis by (simp add: dropWhile_ident)
  next
    case False
    with Cons.prems(1) have p: "\<not> isSpace c" "nf (Some c) cs" by simp_all
    have no: "\<not> (isOperator c \<and> endsWith a '' '')"
      using Cons.prems(2) by (auto simp: endsWith_space hdOpt_def isIdent_not_isOperator)
    have "scanWs (a @ [c]) cs = (a @ [c]) @ cs"
      by (rule Cons.IH) (simp_all add: lastOpt_def p False)
    with p no show ?thesis by auto
  qed
qed

lemma nf_snoc:
  "nf p (a @ [c]) \<longleftrightarrow>
     nf p a \<and> (lastOpt a = Some CHR '' '' \<longrightarrow> isIdent c)
     \<and> (if c = CHR '' '' then identOpt (if a = [] then p else Some (last a)) else \<not> isSpace c)"
proof (induction a arbitrary: p)
  case Nil
  then show ?case by (simp add: lastOpt_def hdOpt_def)
next
  case (Cons x xs)
  show ?case
  proof (cases xs)
    case Nil
    then show ?thesis by (auto simp: lastOpt_def hdOpt_def)
  next
    case (Cons y ys)
    with Cons.IH [of "Some x"] show ?thesis
      by (auto simp: lastOpt_def hdOpt_def)
  qed
qed

lemma scanWs_normal:
  "nf None a \<Longrightarrow> (lastOpt a = Some CHR '' '' \<longrightarrow> identOpt (hdOpt rest)) \<Longrightarrow>
   nf None (scanWs a rest)"
proof (induction a rest rule: scanWs.induct)
  case (1 a)
  then show ?case by simp
next
  case (2 a c cs)
  show ?case
  proof (cases "isSpace c")
    case True
    have nolast: "lastOpt a \<noteq> Some CHR '' ''"
      using "2.prems"(2) True by (auto simp: hdOpt_def isIdent_not_isSpace)
    let ?r = "dropWhile isSpace cs"
    let ?a = "if identOpt (lastOpt a) \<and> identOpt (hdOpt ?r) then a @ '' '' else a"
    have "nf None (scanWs ?a ?r)"
    proof (rule "2.IH"(1) [OF True])
      show "nf None ?a"
        using "2.prems"(1) nolast by (auto simp: nf_snoc lastOpt_def)
      show "lastOpt ?a = Some CHR '' '' \<longrightarrow> identOpt (hdOpt ?r)"
        using nolast by (auto simp: lastOpt_def)
    qed
    with True show ?thesis by simp
  next
    case False
    have op: "\<not> (isOperator c \<and> endsWith a '' '')"
      using "2.prems"(2) by (auto simp: endsWith_space hdOpt_def isIdent_not_isOperator)
    from False have ns: "c \<noteq> CHR '' ''" by auto
    have "nf None (scanWs ((if isOperator c \<and> endsWith a '' '' then butlast a else a) @ [c]) cs)"
    proof (rule "2.IH"(2) [OF False])
      show "nf None ((if isOperator c \<and> endsWith a '' '' then butlast a else a) @ [c])"
        using "2.prems" op False ns by (auto simp: nf_snoc hdOpt_def)
      show "lastOpt ((if isOperator c \<and> endsWith a '' '' then butlast a else a) @ [c]) = Some CHR '' ''
            \<longrightarrow> identOpt (hdOpt cs)"
        using ns by (simp add: lastOpt_def)
    qed
    with False show ?thesis by simp
  qed
qed

lemma scanWs_set: "set (scanWs a rest) \<subseteq> set a \<union> set rest \<union> {CHR '' ''}"
proof (induction a rest rule: scanWs.induct)
  case (1 a)
  then show ?case by auto
next
  case (2 a c cs)
  show ?case
  proof (cases "isSpace c")
    case True
    from "2.IH"(1) [OF True] True show ?thesis
      by (auto dest: set_dropWhileD split: if_splits)
  next
    case False
    from "2.IH"(2) [OF False] False show ?thesis
      by (auto dest: in_set_butlastD split: if_splits)
  qed
qed

lemma nf_spaces: "nf p z \<Longrightarrow> c \<in> set z \<Longrightarrow> isSpace c \<Longrightarrow> c = CHR '' ''"
  by (induction z arbitrary: p) (auto split: if_splits)

lemma nf_head: "nf p z \<Longrightarrow> hdOpt z \<noteq> Some CHR '' '' \<Longrightarrow> nf q z"
  by (cases z) (auto simp: hdOpt_def)

lemma nf_dropWhile: "nf p z \<Longrightarrow> nf None (dropWhile isSpace z)"
proof (cases z)
  case Nil
  then show ?thesis by simp
next
  case (Cons c cs)
  assume n: "nf p z"
  show ?thesis
  proof (cases "c = CHR '' ''")
    case True
    with n Cons have i: "identOpt (hdOpt cs)" and c: "nf (Some CHR '' '') cs" by simp_all
    from i have "hdOpt cs \<noteq> Some CHR '' ''" by (cases cs) (auto simp: hdOpt_def)
    with c have "nf None cs" by (rule nf_head)
    with True Cons i show ?thesis by (simp add: dropWhile_ident)
  next
    case False
    with n Cons have "\<not> isSpace c" by simp
    with n Cons False show ?thesis by (auto intro: nf_head simp: hdOpt_def)
  qed
qed

lemma nf_dropTrailing: "nf None w \<Longrightarrow> nf None (rev (dropWhile isSpace (rev w)))"
proof (induction w rule: rev_induct)
  case Nil
  then show ?case by simp
next
  case (snoc c a)
  then show ?case by (auto simp: nf_snoc split: if_splits)
qed

lemma nf_trim: "nf None z \<Longrightarrow> nf None (trim z)"
  unfolding trim_def by (intro nf_dropTrailing nf_dropWhile)

lemma trim_set: "set (trim z) \<subseteq> set z"
  unfolding trim_def by (auto dest!: set_dropWhileD)

lemma dropTrailing_hd:
  "u = [] \<or> \<not> P (hd u) \<Longrightarrow>
   rev (dropWhile P (rev u)) = [] \<or> \<not> P (hd (rev (dropWhile P (rev u))))"
proof (induction u rule: rev_induct)
  case Nil
  then show ?case by simp
next
  case (snoc c a)
  then show ?case by (cases a) (auto split: if_splits)
qed

lemma trim_trim: "trim (trim z) = trim z"
proof -
  let ?u = "dropWhile isSpace z"
  let ?t = "rev (dropWhile isSpace (rev ?u))"
  have "?u = [] \<or> \<not> isSpace (hd ?u)"
    by (metis hd_dropWhile)
  then have "?t = [] \<or> \<not> isSpace (hd ?t)" by (rule dropTrailing_hd)
  then have "dropWhile isSpace ?t = ?t" by (simp only: dropWhile_eq_self_iff)
  then show ?thesis by (simp add: trim_def)
qed

subsection \<open>The final replacements\<close>

lemma replaceAll_no_match:
  "(\<And>i p ys. set ys \<subseteq> set xs \<Longrightarrow> m [R r] i p ys [] = None) \<Longrightarrow> replaceAll r f i p xs = xs"
proof (induction xs arbitrary: i p)
  case Nil
  then show ?case by (subst replaceAll.simps) simp
next
  case (Cons x xs)
  have "m [R r] i p (x # xs) [] = None" by (rule Cons.prems) simp
  moreover have "replaceAll r f (i + 1) (Some x) xs = xs"
    by (rule Cons.IH, rule Cons.prems) auto
  ultimately show ?case by (subst replaceAll.simps) simp
qed

lemma replace_g_no_match:
  "(\<And>i p ys. set ys \<subseteq> set s \<Longrightarrow> m [R r] i p ys [] = None) \<Longrightarrow> replace_g r rep s = s"
  unfolding replace_g_def by (rule replaceAll_no_match)

lemma m_first_char:
  "c \<notin> set ys \<Longrightarrow> m (R (Chr (One c)) # k) i p ys caps = None"
  by (cases ys) auto

lemma m_str_first:
  "c \<notin> set ys \<Longrightarrow> m (R (str (c # cs)) # k) i p ys caps = None"
  by (simp add: str_def m_first_char)

lemma m_str_second:
  "d \<notin> set ys \<Longrightarrow> m (R (str (c # d # cs)) # k) i p ys caps = None"
  by (cases ys) (auto simp: str_def m_first_char)

lemma m_newline: "CHR 0x0A \<notin> set ys \<Longrightarrow> m [R newline] i p ys [] = None"
  by (cases ys) (auto simp: newline_def seqs_def Opt_def chr_def m_first_char)

lemma m_bracket:
  "CHR 0x22 \<notin> set ys \<Longrightarrow>
   m [R (seqs [str [CHR ''['', CHR 0x22], g, h])] i p ys [] = None"
  by (cases ys) (auto simp: seqs_def str_def m_first_char)

lemma post_id:
  assumes "CHR '';'' \<notin> set z" "CHR ''='' \<notin> set z" "CHR 0x22 \<notin> set z" "CHR 0x0A \<notin> set z"
  shows "chain z
           [replace_g newline '''',
            replace_g (str '';}'') ''}'',
            replace_g (str ''===true'') '''',
            replace_g (str ''!==false'') '''',
            replace_g (str ''==true'') '''',
            replace_g (str ''!=false'') '''',
            replace_g (seqs [str [CHR ''['', CHR 0x22],
                             Group 1 (seqs [Chr (In [CRange CHR ''a'' CHR ''z'', CRange CHR ''A'' CHR ''Z'',
                                                     CChar CHR ''_'', CChar CHR ''$'']),
                                            Star identChar]),
                             str [CHR 0x22, CHR '']'']]) ''.$1''] = z"
proof -
  have 1: "replace_g newline rep z = z" for rep
    using assms(4) by (intro replace_g_no_match m_newline) auto
  have 2: "replace_g (str (CHR '';'' # cs)) rep z = z" for cs rep
    using assms(1) by (intro replace_g_no_match m_str_first) auto
  have 3: "replace_g (str (CHR ''='' # cs)) rep z = z" for cs rep
    using assms(2) by (intro replace_g_no_match m_str_first) auto
  have 4: "replace_g (str (c # CHR ''='' # cs)) rep z = z" for c cs rep
    using assms(2) by (intro replace_g_no_match m_str_second) auto
  have 5: "replace_g (seqs [str [CHR ''['', CHR 0x22], g, h]) rep z = z" for g h rep
    using assms(3) by (intro replace_g_no_match m_bracket) auto
  show ?thesis by (simp only: chain_def foldl.simps 1 2 3 4 5)
qed

lemma minifyJS_plain:
  assumes "plain x"
  shows "minifyJS x = trim (scanWs [] x)"
proof -
  from assms have q: "set x \<inter> {CHR 0x22, CHR 0x27, CHR 0x60, CHR ''/''} = {}"
    and q': "set x \<inter> {CHR 0x22, CHR 0x27, CHR 0x60} = {}" by (auto simp: plain_def)
  let ?z = "scanWs [] x"
  have sub: "set ?z \<subseteq> set x \<union> {CHR '' ''}" using scanWs_set [of "[]" x] by simp
  have n: "nf None ?z" by (rule scanWs_normal) (simp_all add: lastOpt_def)
  have lf: "CHR 0x0A \<notin> set ?z" using nf_spaces [OF n, of "CHR 0x0A"] by (auto simp: isSpace_def)
  have sc: "CHR '';'' \<notin> set ?z" and eq: "CHR ''='' \<notin> set ?z" and dq: "CHR 0x22 \<notin> set ?z"
    using sub assms by (auto simp: plain_def)
  show ?thesis
    by (simp only: minifyJS_def Let_def pass1_plain [OF q] pass2_plain [OF q'] post_id [OF sc eq dq lf])
qed

lemma plain_minifyJS:
  assumes "plain x"
  shows "plain (trim (scanWs [] x))"
proof -
  have "set (trim (scanWs [] x)) \<subseteq> set x \<union> {CHR '' ''}"
    using trim_set [of "scanWs [] x"] scanWs_set [of "[]" x] by auto
  with assms show ?thesis by (auto simp: plain_def)
qed

subsection \<open>Evaluations\<close>

lemma minifyJS_semicolons: "minifyJS ''{a;;}'' = ''{a;}''"
  by (simp add: re_defs js_defs cong: let_weak_cong replaceAll_cong)

lemma minifyJS_semicolon: "minifyJS ''{a;}'' = ''{a}''"
  by (simp add: re_defs js_defs cong: let_weak_cong replaceAll_cong)

lemma minifyCSS_semicolons: "minifyCSS ''a{b:c;;}'' = ''a{b:c;}''"
  by (simp add: re_defs css_defs cong: let_weak_cong replaceAll_cong)

lemma minifyCSS_semicolon: "minifyCSS ''a{b:c;}'' = ''a{b:c}''"
  by (simp add: re_defs css_defs cong: let_weak_cong replaceAll_cong)

lemma minifyHTML_attribute_spaces: "minifyHTML ''<a b = \"c\">'' = ''<a b=\"c\">''"
  by (simp add: re_defs html_defs cong: let_weak_cong replaceAll_cong)

lemma minifyHTML_attribute_quotes: "minifyHTML ''<a b=\"c\">'' = ''<a b=c>''"
  by (simp add: re_defs html_defs cong: let_weak_cong replaceAll_cong)

subsection \<open>Claim C4\<close>

text \<open>
  Claim C4, as amended.  For every input \<open>x\<close> that contains no double quote, single
  quote, backtick, slash, semicolon or equals sign, \<^verbatim>\<open>minifyJS(minifyJS(x))\<close> is
  \<^verbatim>\<open>minifyJS(x)\<close>: on such inputs the minifier only normalises whitespace, and its
  output is already normalised.
\<close>

theorem minifyJS_idempotent_plain:
  assumes "plain x"
  shows "minifyJS (minifyJS x) = minifyJS x"
proof -
  let ?y = "trim (scanWs [] x)"
  have y: "minifyJS x = ?y" using assms by (rule minifyJS_plain)
  have "nf None (scanWs [] x)" by (rule scanWs_normal) (simp_all add: lastOpt_def)
  then have "nf None ?y" by (rule nf_trim)
  then have "scanWs [] ?y = ?y"
    using scanWs_normal_id [of "[]" ?y] by (simp add: lastOpt_def)
  moreover have "minifyJS ?y = trim (scanWs [] ?y)"
    using plain_minifyJS [OF assms] by (rule minifyJS_plain)
  ultimately show ?thesis by (simp add: y trim_trim)
qed

theorem minifyJS_idempotent_plain_witness:
  "plain ''a  +  b c'' \<and> minifyJS (minifyJS ''a  +  b c'') = minifyJS ''a  +  b c''"
  using minifyJS_idempotent_plain [of "''a  +  b c''"] by (simp add: plain_def)

text \<open>
  Claim C4 as stated fails for each of the three minifiers: every one of them is a single
  pass of replacements, and a replacement can produce text that the same pass would
  rewrite again.  \<^verbatim>\<open>minifyJS\<close> and \<^verbatim>\<open>minifyCSS\<close> drop one semicolon before a closing
  brace per pass; \<^verbatim>\<open>minifyHTML\<close> removes the spaces around \<^verbatim>\<open>=\<close> after it has looked for
  attribute values to unquote, so the quotes go in the second pass only.
\<close>

theorem minifiers_not_idempotent_counterexample:
  "minifyJS (minifyJS ''{a;;}'') \<noteq> minifyJS ''{a;;}''
   \<and> minifyCSS (minifyCSS ''a{b:c;;}'') \<noteq> minifyCSS ''a{b:c;;}''
   \<and> minifyHTML (minifyHTML ''<a b = \"c\">'') \<noteq> minifyHTML ''<a b = \"c\">''"
  by (simp add: minifyJS_semicolons minifyJS_semicolon minifyCSS_semicolons minifyCSS_semicolon
        minifyHTML_attribute_spaces minifyHTML_attribute_quotes)


end
